theory Spec2Isabelle
  imports Complex_Main "HOL-Library.Log_Nat" "HOL-Library.Multiset" "HOL-Library.Monad_Syntax"
begin

section \<open>JavaScript numbers\<close>

text \<open>
  Every number of \<^verbatim>\<open>main.js\<close> is an IEEE-754 binary64 value. A finite double is a
  rational, so numbers are modelled by \<^typ>\<open>rat\<close> and every arithmetic operator rounds its
  exact result to the nearest double, ties to even (\<open>dbl\<close>). The exponent of the last
  place is \<open>max \<lfloor>log\<^sub>2 |q|\<rfloor> (-1022) - 52\<close>, which covers the subnormal range. All
  quantities of the program stay far below \<open>2\<^sup>1\<^sup>0\<^sup>2\<^sup>4\<close> and no divisor is zero, so
  infinities, NaN and the sign of zero are not represented.
\<close>

type_synonym number = rat

definition ilog2 :: "rat \<Rightarrow> int" where
  "ilog2 q = (let (a, b) = quotient_of q; d = bitlen a - bitlen b
              in if 2 powi d \<le> q then d else d - 1)"

definition rne :: "rat \<Rightarrow> int" where
  "rne v = (let f = \<lfloor>v\<rfloor>; r = v - of_int f
            in if r < 1 / 2 then f else if 1 / 2 < r then f + 1
               else if even f then f else f + 1)"

definition ulp_exp :: "rat \<Rightarrow> int" where
  "ulp_exp q = max (ilog2 \<bar>q\<bar>) (- 1022) - 52"

definition dbl :: "rat \<Rightarrow> number" where
  "dbl q = (if q = 0 then 0 else of_int (rne (q / 2 powi ulp_exp q)) * 2 powi ulp_exp q)"

definition js_add :: "number \<Rightarrow> number \<Rightarrow> number" where
  "js_add a b = dbl (a + b)"

definition js_sub :: "number \<Rightarrow> number \<Rightarrow> number" where
  "js_sub a b = dbl (a - b)"

definition js_mul :: "number \<Rightarrow> number \<Rightarrow> number" where
  "js_mul a b = dbl (a * b)"

definition js_div :: "number \<Rightarrow> number \<Rightarrow> number" where
  "js_div a b = dbl (a / b)"

text \<open>The remainder operator \<^verbatim>\<open>%\<close> truncates the quotient towards zero and is exact.\<close>

definition js_mod :: "number \<Rightarrow> number \<Rightarrow> number" where
  "js_mod a b = a - b * of_int (if 0 \<le> a / b then \<lfloor>a / b\<rfloor> else \<lceil>a / b\<rceil>)"

text \<open>\<^verbatim>\<open>Math.floor\<close>, \<^verbatim>\<open>Math.round\<close> (ties towards \<open>+\<infinity>\<close>), \<^verbatim>\<open>Math.abs\<close> and
  \<^verbatim>\<open>Math.max\<close> are exact.\<close>

definition Math_floor :: "number \<Rightarrow> number" where
  "Math_floor v = of_int \<lfloor>v\<rfloor>"

definition Math_round :: "number \<Rightarrow> number" where
  "Math_round v = of_int \<lfloor>v + 1 / 2\<rfloor>"

definition Math_abs :: "number \<Rightarrow> number" where
  "Math_abs v = \<bar>v\<bar>"

definition Math_max :: "number \<Rightarrow> number \<Rightarrow> number" where
  "Math_max a b = max a b"

text \<open>
  \<^verbatim>\<open>Math.random()\<close> is an input of the model: every function that draws a random number
  takes the drawn value \<open>u\<close> as an argument. The host returns a double with
  \<open>0 \<le> u < 1\<close>.
\<close>

definition is_random :: "number \<Rightarrow> bool" where
  "is_random u \<longleftrightarrow> 0 \<le> u \<and> u < 1"

text \<open>
  Array read \<^verbatim>\<open>arr[i]\<close> with a number as index: \<^verbatim>\<open>undefined\<close> (\<open>None\<close>) unless \<open>i\<close>
  is an integer inside the array.
\<close>

definition js_index :: "'a list \<Rightarrow> number \<Rightarrow> 'a option" where
  "js_index arr i =
     (if of_int \<lfloor>i\<rfloor> = i \<and> 0 \<le> i \<and> nat \<lfloor>i\<rfloor> < length arr then Some (arr ! nat \<lfloor>i\<rfloor>) else None)"

text \<open>
  Array write \<^verbatim>\<open>arr[i] = v\<close> on an array whose holes are \<open>None\<close>: a write at or past the
  end extends the array, a write at a non-index leaves the elements alone.
\<close>

definition js_store :: "'a option list \<Rightarrow> number \<Rightarrow> 'a \<Rightarrow> 'a option list" where
  "js_store arr i v =
     (if of_int \<lfloor>i\<rfloor> = i \<and> 0 \<le> i
      then (if nat \<lfloor>i\<rfloor> < length arr then arr[nat \<lfloor>i\<rfloor> := Some v]
            else arr @ replicate (nat \<lfloor>i\<rfloor> - length arr) None @ [Some v])
      else arr)"

text \<open>A value interpolated into a template literal; \<^verbatim>\<open>undefined\<close> prints as its name.\<close>

definition js_str :: "string option \<Rightarrow> string" where
  "js_str s = (case s of Some t \<Rightarrow> t | None \<Rightarrow> ''undefined'')"

text \<open>Strings that leave ASCII are lists of UTF-16 code units.\<close>

definition ascii :: "string \<Rightarrow> nat list" where
  "ascii s = map of_char s"

section \<open>Utilities\<close>

definition rand :: "number \<Rightarrow> number \<Rightarrow> number \<Rightarrow> number" where
  "rand u mn mx = js_add (js_mul u (js_sub mx mn)) mn"

definition randi :: "number \<Rightarrow> number \<Rightarrow> number \<Rightarrow> number" where
  "randi u mn mx = Math_floor (rand u mn mx)"

definition choice :: "number \<Rightarrow> 'a list \<Rightarrow> 'a option" where
  "choice u arr = js_index arr (randi u 0 (of_nat (length arr)))"

fun weightedChoice_loop :: "number \<Rightarrow> ('a \<times> number) list \<Rightarrow> 'a option" where
  "weightedChoice_loop roll [] = None"
| "weightedChoice_loop roll ((v, w) # ps) =
     (let roll' = js_sub roll w in if roll' \<le> 0 then Some v else weightedChoice_loop roll' ps)"

text \<open>
  The result is \<open>None\<close> where the source raises a TypeError: on an empty table
  \<^verbatim>\<open>pairs[pairs.length - 1]\<close> is \<^verbatim>\<open>undefined\<close> and has no element \<^verbatim>\<open>[0]\<close>.
\<close>

definition weightedChoice :: "number \<Rightarrow> ('a \<times> number) list \<Rightarrow> 'a option" where
  "weightedChoice u pairs =
     (let total = foldl (\<lambda>s (_, w). js_add s w) 0 pairs;
          roll = js_mul u total
      in case weightedChoice_loop roll pairs of
           Some v \<Rightarrow> Some v
         | None \<Rightarrow> (if pairs = [] then None else Some (fst (last pairs))))"

definition clamp :: "number \<Rightarrow> number \<Rightarrow> number \<Rightarrow> number" where
  "clamp v a b = (if v < a then a else if b < v then b else v)"

subsection \<open>Number to string, and the thousands separator\<close>

definition digit_char :: "int \<Rightarrow> char" where
  "digit_char d = ''0123456789abcdef'' ! nat d"

function digits :: "int \<Rightarrow> int \<Rightarrow> string" where
  "digits b n = (if n < b \<or> b < 2 then [digit_char n] else digits b (n div b) @ [digit_char (n mod b)])"
  by pat_completeness auto
termination
  by (relation "measure (\<lambda>(b, n). nat n)") (auto intro: int_div_less_self)

declare digits.simps [simp del]

text \<open>
  \<^verbatim>\<open>x.toString()\<close> for an integral \<open>x\<close> below \<open>10\<^sup>2\<^sup>1\<close> is its decimal numeral; other
  numbers (fractions, exponent notation) are outside the model and give \<open>None\<close>.
\<close>

definition Number_toString :: "number \<Rightarrow> string option" where
  "Number_toString v =
     (if of_int \<lfloor>v\<rfloor> = v \<and> \<bar>v\<bar> < 10 ^ 21
      then Some ((if v < 0 then ''-'' else '''') @ digits 10 \<bar>\<lfloor>v\<rfloor>\<bar>)
      else None)"

definition is_digit :: "char \<Rightarrow> bool" where
  "is_digit c \<longleftrightarrow> (48::int) \<le> of_char c \<and> (of_char c :: int) \<le> 57"

definition is_word :: "char \<Rightarrow> bool" where
  "is_word c \<longleftrightarrow> is_digit c \<or> ((97::int) \<le> of_char c \<and> (of_char c :: int) \<le> 122)
     \<or> ((65::int) \<le> of_char c \<and> (of_char c :: int) \<le> 90) \<or> c = CHR ''_''"

text \<open>
  The lookahead \<^verbatim>\<open>(?=(\d{3})+(?!\d))\<close> holds at a position when the digits that follow
  can be split into one or more groups of three with no digit after the last group: the
  run of digits starting there is non-empty and its length is a multiple of three.
\<close>

definition lookahead :: "string \<Rightarrow> bool" where
  "lookahead s = (let r = length (takeWhile is_digit s) in 0 < r \<and> r mod 3 = 0)"

text \<open>\<^verbatim>\<open>\B\<close> holds between two word characters or between two non-word positions.\<close>

definition not_boundary :: "char option \<Rightarrow> char option \<Rightarrow> bool" where
  "not_boundary p c =
     ((case p of Some a \<Rightarrow> is_word a | None \<Rightarrow> False) = (case c of Some a \<Rightarrow> is_word a | None \<Rightarrow> False))"

text \<open>\<^verbatim>\<open>.replace(/\B(?=(\d{3})+(?!\d))/g, ',')\<close>: a comma at every matching position.\<close>

fun replace_commas :: "char option \<Rightarrow> string \<Rightarrow> string" where
  "replace_commas p [] = []"
| "replace_commas p (c # cs) =
     (if not_boundary p (Some c) \<and> lookahead (c # cs) then '','' else '''')
       @ c # replace_commas (Some c) cs"

definition formatMoneyUSD :: "number \<Rightarrow> string option" where
  "formatMoneyUSD n =
     (let sign = (if n < 0 then ''-'' else '''');
          x = Math_abs (Math_round n)
      in map_option (\<lambda>s. sign @ ''$'' @ replace_commas None s) (Number_toString x))"

section \<open>Config and viewport\<close>

record config =
  densityScale :: number
  speedScale :: number
  capsuleRateScale :: number
  glowIntensity :: number
  showCode :: bool
  allowHexCapsules :: bool
  maxCapsules :: number
  theme :: string
  showFps :: bool

definition CONFIG :: config where
  "CONFIG = \<lparr> densityScale = 1, speedScale = 1, capsuleRateScale = 1, glowIntensity = dbl (6 / 10),
     showCode = True, allowHexCapsules = True, maxCapsules = 12, theme = ''green'',
     showFps = False \<rparr>"

record canvas =
  clientWidth :: number
  clientHeight :: number

record window =
  innerWidth :: number
  innerHeight :: number

section \<open>Matrix rain\<close>

record column =
  x_pos :: number
  y_pos :: number
  speed :: number
  streamLength :: number
  glyphIndices :: "number option list"
  drift :: number

record MatrixRain =
  glyphSize :: number
  columnCount :: number
  columns :: "column list"
  characters :: "nat list"

text \<open>The random draws of one \<^verbatim>\<open>spawnColumn\<close> call, in the order of the source.\<close>

record column_draws =
  d_y :: number
  d_speed :: number
  d_streamLength :: number
  d_glyph :: "nat \<Rightarrow> number"
  d_drift :: number

text \<open>The random draws \<^verbatim>\<open>update\<close> may make for one column in one frame.\<close>

record frame_draws =
  r_index :: number
  r_column :: column_draws
  m_gate :: number
  m_idx :: number
  m_val :: number

definition buildGlyphSet :: "nat list" where
  "buildGlyphSet =
     [65 ..< 91] @ [97 ..< 123] @ [48 ..< 58]
     @ [33, 64, 35, 36, 37, 94, 38, 42, 40, 41, 95, 43, 45, 61, 91, 93, 123, 125, 59, 58, 34,
        44, 46, 47, 60, 62, 63]
     @ [65393 ..< 65438]"

definition spawnColumn ::
  "canvas \<Rightarrow> config \<Rightarrow> MatrixRain \<Rightarrow> column_draws \<Rightarrow> number \<Rightarrow> number \<Rightarrow> column" where
  "spawnColumn cv cfg rain d index screenH =
     \<lparr> x_pos = Math_floor (js_mul index (js_div (clientWidth cv) (columnCount rain))),
       y_pos = randi (d_y d) (- screenH) 0,
       speed = js_mul (rand (d_speed d) 60 180) (speedScale cfg),
       streamLength = randi (d_streamLength d) 10 40,
       glyphIndices =
         map (\<lambda>k. Some (randi (d_glyph d k) 0 (of_nat (length (characters rain))))) [0 ..< 60],
       drift = rand (d_drift d) (- dbl (2 / 10)) (dbl (2 / 10)) \<rparr>"

definition resetColumns ::
  "canvas \<Rightarrow> config \<Rightarrow> (nat \<Rightarrow> column_draws) \<Rightarrow> MatrixRain \<Rightarrow> MatrixRain" where
  "resetColumns cv cfg ds rain =
     (let w = clientWidth cv;
          h = clientHeight cv;
          gsize = glyphSize rain;
          density = js_mul (dbl (7 / 10)) (densityScale cfg);
          numCols = Math_max 8 (Math_floor (js_mul (js_div w gsize) density));
          rain1 = rain\<lparr>columnCount := numCols\<rparr>
      in rain1\<lparr>columns :=
           map (\<lambda>i. spawnColumn cv cfg rain1 (ds i) (of_nat i) h) [0 ..< nat \<lfloor>numCols\<rfloor>]\<rparr>)"

text \<open>The constructor: the fields are set, then \<^verbatim>\<open>resetColumns\<close> runs.\<close>

definition new_MatrixRain :: "canvas \<Rightarrow> config \<Rightarrow> (nat \<Rightarrow> column_draws) \<Rightarrow> MatrixRain" where
  "new_MatrixRain cv cfg ds =
     resetColumns cv cfg ds
       \<lparr> glyphSize = 16, columnCount = 0, columns = [], characters = buildGlyphSet \<rparr>"

text \<open>The count that \<^verbatim>\<open>update\<close> recomputes to detect a change of density or width.\<close>

definition desiredCols :: "canvas \<Rightarrow> config \<Rightarrow> MatrixRain \<Rightarrow> number" where
  "desiredCols cv cfg rain =
     Math_max 8
       (Math_floor (js_mul (js_mul (js_div (clientWidth cv) (glyphSize rain)) (dbl (7 / 10)))
          (densityScale cfg)))"

definition update_column ::
  "canvas \<Rightarrow> config \<Rightarrow> MatrixRain \<Rightarrow> frame_draws \<Rightarrow> number \<Rightarrow> column \<Rightarrow> column" where
  "update_column cv cfg rain fd dt col =
     (let h = clientHeight cv;
          gsize = glyphSize rain;
          col1 = col\<lparr>y_pos := js_add (y_pos col) (js_mul (js_mul (speed col) (speedScale cfg)) dt)\<rparr>;
          col2 = (if js_add h 20 < js_sub (y_pos col1) (js_mul (streamLength col1) gsize)
                  then spawnColumn cv cfg rain (r_column fd)
                         (js_mul (r_index fd) (columnCount rain)) h
                  else col1)
      in if m_gate fd < dbl (2 / 10)
         then col2\<lparr>glyphIndices :=
                js_store (glyphIndices col2)
                  (randi (m_idx fd) 0 (of_nat (length (glyphIndices col2))))
                  (randi (m_val fd) 0 (of_nat (length (characters rain))))\<rparr>
         else col2)"

definition update ::
  "canvas \<Rightarrow> config \<Rightarrow> (nat \<Rightarrow> column_draws) \<Rightarrow> (nat \<Rightarrow> frame_draws) \<Rightarrow> number
     \<Rightarrow> MatrixRain \<Rightarrow> MatrixRain" where
  "update cv cfg ds fds dt rain =
     (if desiredCols cv cfg rain \<noteq> columnCount rain then resetColumns cv cfg ds rain
      else rain\<lparr>columns :=
             map (\<lambda>(i, col). update_column cv cfg rain (fds i) dt col)
               (enumerate 0 (columns rain))\<rparr>)"

text \<open>
  Of \<^verbatim>\<open>draw\<close> the model keeps the choice of glyphs: for the trail position \<open>i\<close> of a
  column, the slot of \<^verbatim>\<open>glyphIndices\<close> that is read and the atlas index found there.
  Painting the canvas is outside the model.
\<close>

definition glyph_slot :: "column \<Rightarrow> nat \<Rightarrow> number" where
  "glyph_slot col i =
     (let len = of_nat (length (glyphIndices col))
      in js_mod (js_add (of_nat i) (js_sub len (js_mod (of_nat i) len))) len)"

definition draw_glyph :: "column \<Rightarrow> nat \<Rightarrow> number option" where
  "draw_glyph col i = Option.bind (js_index (glyphIndices col) (glyph_slot col i)) (\<lambda>g. g)"

definition draw_column :: "column \<Rightarrow> number option list" where
  "draw_column col = map (draw_glyph col) [0 ..< nat \<lceil>streamLength col\<rceil>]"

definition draw :: "MatrixRain \<Rightarrow> number option list list" where
  "draw rain = map draw_column (columns rain)"

section \<open>Profile factory\<close>

record profile =
  profile_id :: string
  name :: string
  age :: number
  gender :: "string option"
  job_title :: "string option"
  industry :: "string option"
  income_usd :: number
  education :: "string option"
  location_city :: "string option"
  relationship_status :: "string option"
  emotional_state :: string
  activity :: "string option"
  interests :: "string list"
  risk_score :: number
  last_active :: string

definition firstNames :: "string list" where
  "firstNames = [''Ava'', ''Mia'', ''Liam'', ''Noah'', ''Emma'', ''Oliver'', ''Lucas'', ''Amelia'',
     ''Ethan'', ''Sofia'', ''Zoe'', ''Kai'', ''Nina'', ''Leo'', ''Isla'', ''Maya'', ''Ezra'', ''Ivy'',
     ''Mila'', ''Aria'', ''Theo'', ''Luna'', ''Finn'', ''Mason'', ''Iris'']"

definition lastNames :: "string list" where
  "lastNames = [''Kim'', ''Lee'', ''Nguyen'', ''Patel'', ''Garcia'', ''Chen'', ''Smith'', ''Khan'',
     ''Mori'', ''Silva'', ''Rossi'', ''Santos'', ''Brown'', ''Martin'', ''Lopez'', ''Wilson'',
     ''Dubois'', ''Kowalski'']"

definition genders :: "string list" where
  "genders = [''female'', ''male'', ''non-binary'']"

definition industries :: "string list" where
  "industries = [''Finance'', ''Healthcare'', ''Tech'', ''Education'', ''Retail'', ''Energy'',
     ''Gaming'', ''Media'', ''Gov'', ''Aerospace'']"

definition jobs :: "string list" where
  "jobs = [''Engineer'', ''Designer'', ''Data Scientist'', ''Analyst'', ''PM'', ''Researcher'',
     ''Nurse'', ''Teacher'', ''Marketer'', ''Artist'', ''Security'', ''Pilot'']"

definition relationship :: "string list" where
  "relationship = [''single'', ''dating'', ''married'', ''complicated'']"

definition education_levels :: "string list" where
  "education_levels = [''HS'', ''Associate'', ''BSc'', ''MSc'', ''PhD'']"

definition emotional :: "(string \<times> number) list" where
  "emotional = [(''focused'', 3), (''stressed'', 2), (''curious'', 3), (''flow'', 2),
     (''burnout'', 1), (''optimistic'', 2), (''calm'', 2), (''distracted'', 1)]"

definition cities :: "string list" where
  "cities = [''New York'', ''Berlin'', ''Tokyo'', ''Seoul'', ''Toronto'', ''Paris'', ''Madrid'',
     ''Sydney'', ''Sao Paulo'', ''Nairobi'', ''Dublin'', ''Singapore'']"

definition activities :: "string list" where
  "activities = [''browsing'', ''coding'', ''commuting'', ''meeting'', ''streaming'', ''learning'',
     ''exercising'', ''shopping'']"

definition income_base :: "(string \<times> number \<times> number) list" where
  "income_base = [(''Tech'', 80000, 220000), (''Finance'', 70000, 250000),
     (''Healthcare'', 50000, 180000), (''Education'', 35000, 120000), (''Retail'', 30000, 90000),
     (''Energy'', 60000, 200000), (''Gaming'', 45000, 150000), (''Media'', 40000, 140000),
     (''Gov'', 40000, 120000), (''Aerospace'', 70000, 210000)]"

text \<open>The range \<^verbatim>\<open>sampleIncome\<close> uses for an industry, with its fallback.\<close>

definition income_range :: "string option \<Rightarrow> number \<times> number" where
  "income_range ind =
     (case Option.bind ind (map_of income_base) of Some b \<Rightarrow> b | None \<Rightarrow> (40000, 120000))"

definition sampleIncome :: "number \<Rightarrow> string option \<Rightarrow> number" where
  "sampleIncome u ind =
     (let base = income_range ind
      in js_mul (Math_round (js_div (rand u (fst base) (snd base)) 1000)) 1000)"

definition moodBias :: "(string \<times> number) list" where
  "moodBias = [(''burnout'', 15), (''stressed'', 10), (''distracted'', 8), (''focused'', - 5),
     (''calm'', - 5), (''flow'', - 8), (''optimistic'', - 3), (''curious'', 0)]"

definition riskFromIncomeAndMood :: "number \<Rightarrow> number \<Rightarrow> string \<Rightarrow> number" where
  "riskFromIncomeAndMood u income mood =
     (let r0 = rand u 10 90;
          r1 = (if 150000 < income then js_sub r0 10 else r0);
          r2 = (if income < 40000 then js_add r1 10 else r1);
          r3 = js_add r2 (case map_of moodBias mood of Some b \<Rightarrow> b | None \<Rightarrow> 0)
      in clamp (Math_round r3) 0 100)"

definition interests_pool :: "string list" where
  "interests_pool = [''climbing'', ''reading'', ''ai'', ''music'', ''crypto'', ''gardening'',
     ''photography'', ''biking'', ''chess'', ''vr'', ''cooking'', ''yoga'', ''travel'', ''gaming'']"

text \<open>
  \<^verbatim>\<open>[...pool].sort(() => Math.random() - 0.5)\<close> sorts with a comparator that is not an
  order; the host returns the elements of the pool in an order of its own. That
  rearrangement is the argument \<open>shuffled\<close>.
\<close>

definition is_shuffle :: "string list \<Rightarrow> bool" where
  "is_shuffle shuffled \<longleftrightarrow> mset shuffled = mset interests_pool"

definition interestsSet :: "number \<Rightarrow> string list \<Rightarrow> string list" where
  "interestsSet u shuffled = (let n = randi u 2 6 in take (nat \<lfloor>n\<rfloor>) shuffled)"

text \<open>
  The inputs of one \<^verbatim>\<open>generate\<close> call: its random draws, the rearranged pool, and the
  two strings that come from the host's number formatting and clock (\<^verbatim>\<open>makeId()\<close> and
  the ISO date of \<^verbatim>\<open>last_active\<close>).
\<close>

record profile_draws =
  u_industry :: number
  u_job :: number
  u_mood :: number
  u_age :: number
  u_income :: number
  u_risk :: number
  u_first :: number
  u_last :: number
  u_gender :: number
  u_education :: number
  u_city :: number
  u_relationship :: number
  u_activity :: number
  u_interests :: number
  shuffled_pool :: "string list"
  made_id :: string
  iso_last_active :: string

definition generate :: "profile_draws \<Rightarrow> profile option" where
  "generate d =
     (let ind = choice (u_industry d) industries;
          job = choice (u_job d) jobs
      in case weightedChoice (u_mood d) emotional of
           None \<Rightarrow> None
         | Some mood \<Rightarrow>
             (let age = randi (u_age d) 18 70;
                  inc = sampleIncome (u_income d) ind;
                  risk = riskFromIncomeAndMood (u_risk d) inc mood
              in Some \<lparr> profile_id = made_id d,
                   name = js_str (choice (u_first d) firstNames) @ '' ''
                          @ js_str (choice (u_last d) lastNames),
                   age = age,
                   gender = choice (u_gender d) genders,
                   job_title = job,
                   industry = ind,
                   income_usd = inc,
                   education = choice (u_education d) education_levels,
                   location_city = choice (u_city d) cities,
                   relationship_status = choice (u_relationship d) relationship,
                   emotional_state = mood,
                   activity = choice (u_activity d) activities,
                   interests = interestsSet (u_interests d) (shuffled_pool d),
                   risk_score = risk,
                   last_active = iso_last_active d \<rparr>))"

text \<open>
  The formula of the specification for the risk score:
  \<^verbatim>\<open>clamp(round(uniform(10,90) + incomeAdjustment + moodAdjustment), 0, 100)\<close>.
\<close>

definition incomeAdjustment :: "number \<Rightarrow> number" where
  "incomeAdjustment income = (if 150000 < income then - 10 else if income < 40000 then 10 else 0)"

definition moodAdjustment :: "string \<Rightarrow> number" where
  "moodAdjustment mood =
     (if mood = ''burnout'' then 15 else if mood = ''stressed'' then 10
      else if mood = ''distracted'' then 8 else if mood = ''focused'' then - 5
      else if mood = ''calm'' then - 5 else if mood = ''flow'' then - 8
      else if mood = ''optimistic'' then - 3 else 0)"

definition risk_spec :: "number \<Rightarrow> number \<Rightarrow> string \<Rightarrow> number" where
  "risk_spec u income mood =
     clamp (Math_round (js_add (js_add (rand u 10 90) (incomeAdjustment income))
                          (moodAdjustment mood))) 0 100"

section \<open>Capsule manager\<close>

text \<open>
  \<^verbatim>\<open>JSON.stringify\<close> belongs to the host; the two calls of \<^verbatim>\<open>spawnRandom\<close> (indented
  and compact) are parameters of the model.
\<close>

record host =
  json_pretty :: "profile \<Rightarrow> string"
  json_compact :: "profile \<Rightarrow> string"

fun js_join :: "'a list \<Rightarrow> 'a list list \<Rightarrow> 'a list" where
  "js_join sep [] = []"
| "js_join sep [s] = s"
| "js_join sep (s # t # ts) = s @ sep @ js_join sep (t # ts)"

definition padStart2 :: "string \<Rightarrow> string" where
  "padStart2 s = replicate (2 - length s) CHR ''0'' @ s"

text \<open>The block \<^verbatim>\<open>// Build text by mode\<close> of \<^verbatim>\<open>spawnRandom\<close>.\<close>

definition capsule_text :: "host \<Rightarrow> string option \<Rightarrow> profile \<Rightarrow> string option" where
  "capsule_text h mode p =
     (if mode = Some ''json'' then Some (json_pretty h p)
      else if mode = Some ''inline'' then
        do {
          a \<leftarrow> Number_toString (age p);
          m \<leftarrow> formatMoneyUSD (income_usd p);
          r \<leftarrow> Number_toString (risk_score p);
          Some (js_join '' | ''
            [''id='' @ profile_id p, ''age='' @ a, ''job='' @ js_str (job_title p),
             ''emotional='' @ emotional_state p, ''income='' @ m, ''risk='' @ r])
        }
      else Some (js_join '' ''
             (map (\<lambda>ch. padStart2 (digits 16 (of_char ch mod 256))) (json_compact h p))))"

definition blocks :: "nat list" where
  "blocks = [9601, 9602, 9603, 9604, 9605, 9606, 9607, 9608]"

text \<open>The slot of \<^verbatim>\<open>blocks\<close> that \<^verbatim>\<open>makeSparkline\<close> reads for the value \<open>v\<close>.\<close>

definition block_index :: "number \<Rightarrow> number" where
  "block_index v = Math_floor (js_div v (25 / 2))"

text \<open>\<^verbatim>\<open>join('')\<close> prints an \<^verbatim>\<open>undefined\<close> element as the empty string.\<close>

definition makeSparkline :: "(nat \<Rightarrow> number) \<Rightarrow> number \<Rightarrow> nat list" where
  "makeSparkline us seed =
     (let arr = map (\<lambda>i. clamp (Math_round (js_add seed (js_mul (js_sub (us i) (1 / 2)) 20))) 0 100)
                  [0 ..< 10]
      in concat (map (\<lambda>v. case js_index blocks (block_index v) of Some c \<Rightarrow> [c] | None \<Rightarrow> []) arr))"

text \<open>
  Display nodes are shared objects: the pool, the active set and the animation
  callbacks all refer to the same node. The model keeps them in a store indexed by
  address. A style property holds the number its string denotes (\<^verbatim>\<open>'0'\<close>, \<^verbatim>\<open>'12px'\<close>,
  \<^verbatim>\<open>String(fade)\<close>), \<open>None\<close> when it was never set.
\<close>

datatype transform = Translate3d number number

record child =
  child_class :: string
  textContent :: "nat list"

record node =
  className :: string
  style_opacity :: "number option"
  style_left :: "number option"
  style_top :: "number option"
  style_transform :: "transform option"
  children :: "child list"

definition createElement :: node where
  "createElement = \<lparr> className = [], style_opacity = None, style_left = None, style_top = None,
     style_transform = None, children = [] \<rparr>"

text \<open>
  \<open>active\<close> is the JavaScript \<^verbatim>\<open>Set\<close> in insertion order, \<open>container\<close> the child list
  of the container element, \<open>typing\<close> the \<^verbatim>\<open>typeText\<close> calls made so far (node, text,
  seconds per character). The typewriter and the highlight pulse run on timers
  after \<^verbatim>\<open>spawnRandom\<close>; they write the text of the content child, the opacity and
  the filter of the node, and are outside the model.
\<close>

record manager =
  nodes :: "nat \<Rightarrow> node"
  next_node :: nat
  container :: "nat list"
  pool :: "nat list"
  active :: "nat list"
  spawnAccumulator :: number
  typing :: "(nat \<times> string option \<times> number) list"

definition new_manager :: manager where
  "new_manager = \<lparr> nodes = (\<lambda>_. createElement), next_node = 0, container = [], pool = [],
     active = [], spawnAccumulator = 0, typing = [] \<rparr>"

record spawn_draws =
  s_profile :: profile_draws
  s_mode :: number
  s_left :: number
  s_top :: number
  s_spark :: number
  s_ticks :: "nat \<Rightarrow> number"
  s_speed :: number

definition pickMode :: "config \<Rightarrow> number \<Rightarrow> string option" where
  "pickMode cfg u =
     choice u ([''json'', ''inline''] @ (if allowHexCapsules cfg then [''hex''] else []))"

definition getNode :: "manager \<Rightarrow> nat \<times> manager" where
  "getNode st =
     (if pool st = []
      then (next_node st,
            st\<lparr>nodes := (nodes st)(next_node st := createElement), next_node := Suc (next_node st)\<rparr>)
      else (last (pool st), st\<lparr>pool := butlast (pool st)\<rparr>))"

definition releaseNode :: "nat \<Rightarrow> manager \<Rightarrow> manager" where
  "releaseNode n st = st\<lparr>container := removeAll n (container st), pool := pool st @ [n]\<rparr>"

definition spawnRandom ::
  "config \<Rightarrow> window \<Rightarrow> host \<Rightarrow> spawn_draws \<Rightarrow> manager \<Rightarrow> manager option" where
  "spawnRandom cfg win h d st =
     (case generate (s_profile d) of
        None \<Rightarrow> None
      | Some p \<Rightarrow>
          (let mode = pickMode cfg (s_mode d);
               (n, st1) = getNode st;
               hdr = \<lparr> child_class = ''hdr'', textContent = ascii ''PROFILE_STREAM'' \<rparr>;
               content = \<lparr> child_class = [], textContent = [] \<rparr>;
               spark = (if s_spark d < dbl (1 / 10)
                        then [\<lparr> child_class = ''spark'',
                                textContent = ascii ''risk_ticks ''
                                  @ makeSparkline (s_ticks d) (risk_score p) \<rparr>]
                        else []);
               nd = (nodes st1 n)
                 \<lparr> className := ''capsule '' @ js_str mode,
                   style_opacity := Some 0,
                   style_left := Some (randi (s_left d) 10 (Math_max 20 (js_sub (innerWidth win) 360))),
                   style_top := Some (randi (s_top d) 10 (Math_max 20 (js_sub (innerHeight win) 160))),
                   children := [hdr, content] @ spark \<rparr>
           in Some (st1
                \<lparr> nodes := (nodes st1)(n := nd),
                  container := removeAll n (container st1) @ [n],
                  active := (if n \<in> set (active st1) then active st1 else active st1 @ [n]),
                  typing := typing st1
                    @ [(n, capsule_text h mode p, rand (s_speed d) (dbl (4 / 100)) (dbl (8 / 100)))] \<rparr>)))"

record tick_draws =
  t_threshold :: number
  t_spawn :: spawn_draws

definition tick ::
  "config \<Rightarrow> window \<Rightarrow> host \<Rightarrow> tick_draws \<Rightarrow> number \<Rightarrow> manager \<Rightarrow> manager option" where
  "tick cfg win h d dt st =
     (let baseRate = 1;
          rate = js_mul baseRate (capsuleRateScale cfg);
          st1 = st\<lparr>spawnAccumulator := js_add (spawnAccumulator st) (js_mul dt rate)\<rparr>
      in if rand (t_threshold d) (dbl (6 / 10)) (dbl (14 / 10)) \<le> spawnAccumulator st1
         then (let st2 = st1\<lparr>spawnAccumulator := 0\<rparr>
               in if of_nat (length (active st2)) < maxCapsules cfg
                  then spawnRandom cfg win h (t_spawn d) st2
                  else Some st2)
         else Some st1)"

text \<open>
  \<^verbatim>\<open>dissolve\<close> runs its closure \<^verbatim>\<open>jitter\<close> once per animation frame. A frame brings
  the clock value \<^verbatim>\<open>nowMs()\<close> and two random draws. \<open>jitter\<close> returns the new state and
  whether it asked for another frame.
\<close>

record frame =
  now :: number
  jx :: number
  jy :: number

definition jitter :: "number \<Rightarrow> nat \<Rightarrow> frame \<Rightarrow> manager \<Rightarrow> manager \<times> bool" where
  "jitter start n f st =
     (let duration = 500;
          t = js_div (js_sub (now f) start) duration
      in if 1 \<le> t
         then (releaseNode n (st\<lparr>active := removeAll n (active st)\<rparr>), False)
         else (let fade = js_sub 1 t
               in (st\<lparr>nodes := (nodes st)(n := (nodes st n)
                        \<lparr> style_opacity := Some fade,
                          style_transform :=
                            Some (Translate3d (js_mul (js_sub (jx f) (1 / 2)) 6)
                                              (js_mul (js_sub (jy f) (1 / 2)) 6)) \<rparr>)\<rparr>,
                   True)))"

text \<open>
  \<open>dissolve start n fs\<close> is \<^verbatim>\<open>dissolve(node)\<close> called at clock value \<open>start\<close> and followed
  by the animation frames \<open>fs\<close>; the flag tells whether the animation is still waiting
  for a frame.
\<close>

fun dissolve :: "number \<Rightarrow> nat \<Rightarrow> frame list \<Rightarrow> manager \<Rightarrow> manager \<times> bool" where
  "dissolve start n [] st = (st, True)"
| "dissolve start n (f # fs) st =
     (case jitter start n f st of
        (st', True) \<Rightarrow> dissolve start n fs st'
      | (st', False) \<Rightarrow> (st', False))"

text \<open>The value \<open>t\<close> that \<open>jitter\<close> computes at a frame: the elapsed part of the 500 ms.\<close>

definition progress :: "number \<Rightarrow> frame \<Rightarrow> number" where
  "progress start f = js_div (js_sub (now f) start) 500"

text \<open>The frames of a run that come before the 500 ms: the ones at which the dissolve fades.\<close>

definition fading :: "number \<Rightarrow> frame list \<Rightarrow> frame list" where
  "fading start fs = takeWhile (\<lambda>f. progress start f < 1) fs"

section \<open>A concrete run\<close>

text \<open>Inputs of one run of the generator and of the capsule manager, used to exercise
  the theorems below on concrete values.\<close>

definition demo_profile_draws :: profile_draws where
  "demo_profile_draws =
     \<lparr> u_industry = 1 / 4, u_job = 0, u_mood = 1 / 2, u_age = 1 / 4, u_income = 1 / 2,
       u_risk = 3 / 8, u_first = 1 / 2, u_last = 1 / 2, u_gender = 1 / 2, u_education = 1 / 2,
       u_city = 1 / 2, u_relationship = 1 / 2, u_activity = 1 / 2, u_interests = 1 / 2,
       shuffled_pool = rev interests_pool, made_id = ''k3x9q2-abcd'',
       iso_last_active = ''2025-08-11T09:30:00.000Z'' \<rparr>"

definition demo_spawn_draws :: spawn_draws where
  "demo_spawn_draws =
     \<lparr> s_profile = demo_profile_draws, s_mode = 1 / 2, s_left = 1 / 2, s_top = 1 / 2,
       s_spark = 1 / 2, s_ticks = (\<lambda>_. 1 / 2), s_speed = 1 / 2 \<rparr>"

definition demo_tick_draws :: tick_draws where
  "demo_tick_draws = \<lparr> t_threshold = 1 / 2, t_spawn = demo_spawn_draws \<rparr>"

definition demo_window :: window where
  "demo_window = \<lparr> innerWidth = 1280, innerHeight = 720 \<rparr>"

definition demo_canvas :: canvas where
  "demo_canvas = \<lparr> clientWidth = 800, clientHeight = 600 \<rparr>"

definition demo_host :: host where
  "demo_host = \<lparr> json_pretty = (\<lambda>_. ''{}''), json_compact = (\<lambda>_. ''{}'') \<rparr>"

text \<open>A column with sixty glyph indices and a trail of ten.\<close>

definition demo_column :: column where
  "demo_column =
     \<lparr> x_pos = 0, y_pos = 0, speed = 60, streamLength = 10,
       glyphIndices = map (\<lambda>k. Some (of_nat k)) [0 ..< 60], drift = 0 \<rparr>"

text \<open>
  A manager holding one panel on node 0 whose text has been typed out: the node is a
  child of the container, is in the active set and has opacity \<^verbatim>\<open>'1'\<close>.
\<close>

definition one_panel :: manager where
  "one_panel =
     \<lparr> nodes = (\<lambda>_. createElement)
         (0 := \<lparr> className = ''capsule inline'', style_opacity = Some 1, style_left = Some 640,
                 style_top = Some 360, style_transform = None,
                 children = [\<lparr> child_class = ''hdr'', textContent = ascii ''PROFILE_STREAM'' \<rparr>,
                             \<lparr> child_class = [], textContent = ascii ''id=k3x9q2-abcd'' \<rparr>] \<rparr>),
       next_node = 1, container = [0], pool = [], active = [0], spawnAccumulator = 0,
       typing = [] \<rparr>"

text \<open>Two animation frames: 250 ms and 500 ms after the start of a dissolve at clock 0.\<close>

definition demo_frames :: "frame list" where
  "demo_frames = [\<lparr> now = 250, jx = 3 / 4, jy = 1 / 4 \<rparr>, \<lparr> now = 500, jx = 1 / 2, jy = 1 / 2 \<rparr>]"

text \<open>What is read off a node of the store.\<close>

definition node_opacity :: "nat \<Rightarrow> manager \<Rightarrow> number option" where
  "node_opacity n st = style_opacity (nodes st n)"

definition node_transform :: "nat \<Rightarrow> manager \<Rightarrow> transform option" where
  "node_transform n st = style_transform (nodes st n)"

section \<open>Properties of the rounding\<close>

lemma bitlen_powi_bounds:
  fixes a :: int
  assumes "0 < a"
  shows "(2::rat) powi (bitlen a - 1) \<le> of_int a" and "of_int a < (2::rat) powi bitlen a"
proof -
  from bitlen_bounds[OF assms] have l: "2 ^ nat (bitlen a - 1) \<le> a" and u: "a < 2 ^ nat (bitlen a)"
    by auto
  have ge: "1 \<le> bitlen a" using assms by (auto simp: bitlen_alt_def)
  have "(2::rat) powi (bitlen a - 1) = 2 ^ nat (bitlen a - 1)"
    using ge by (simp add: power_int_def)
  also have "\<dots> = of_int (2 ^ nat (bitlen a - 1))" by simp
  also have "\<dots> \<le> of_int a" using l by (simp only: of_int_le_iff)
  finally show "(2::rat) powi (bitlen a - 1) \<le> of_int a" .
  have "(of_int a :: rat) < of_int (2 ^ nat (bitlen a))" using u by (simp only: of_int_less_iff)
  also have "\<dots> = 2 powi bitlen a" using ge by (simp add: power_int_def)
  finally show "of_int a < (2::rat) powi bitlen a" .
qed

lemma powi2_pos: "0 < (2::rat) powi a"
  by simp

lemma powi2_less_iff: "(2::rat) powi a < 2 powi b \<longleftrightarrow> a < b"
proof
  assume lt: "(2::rat) powi a < 2 powi b"
  show "a < b"
  proof (rule ccontr)
    assume "\<not> a < b"
    then have "(2::rat) powi b \<le> 2 powi a" by (intro power_int_increasing) auto
    with lt show False by simp
  qed
next
  assume "a < b"
  then show "(2::rat) powi a < 2 powi b" by (intro power_int_strict_increasing) auto
qed

lemma powi2_le_iff: "(2::rat) powi a \<le> 2 powi b \<longleftrightarrow> a \<le> b"
  using powi2_less_iff[of b a] by (auto simp: not_less[symmetric])

lemma ilog2_bounds:
  assumes "0 < q"
  shows "2 powi ilog2 q \<le> q" and "q < 2 powi (ilog2 q + 1)"
proof -
  obtain a b where ab: "quotient_of q = (a, b)" by (cases "quotient_of q")
  have b: "0 < b" using ab by (rule quotient_of_denom_pos)
  have q: "q = of_int a / of_int b" using ab by (rule quotient_of_div)
  have a: "0 < a" using assms b q by (simp add: zero_less_divide_iff)
  define d where "d = bitlen a - bitlen b"
  have lo: "2 powi (d - 1) < q"
  proof -
    have "(2::rat) powi (d - 1) = 2 powi (bitlen a - 1) / 2 powi bitlen b"
      by (simp add: d_def power_int_diff)
    also have "\<dots> \<le> of_int a / 2 powi bitlen b"
      using bitlen_powi_bounds(1)[OF a] by (simp add: divide_right_mono)
    also have "\<dots> < of_int a / of_int b"
      using bitlen_powi_bounds(2)[OF b] a b by (simp add: divide_strict_left_mono)
    finally show ?thesis by (simp add: q)
  qed
  have hi: "q < 2 powi (d + 1)"
  proof -
    have "q < 2 powi bitlen a / of_int b"
      using bitlen_powi_bounds(2)[OF a] b by (simp add: q divide_strict_right_mono)
    also have "\<dots> \<le> 2 powi bitlen a / 2 powi (bitlen b - 1)"
      using bitlen_powi_bounds(1)[OF b] b by (simp add: divide_left_mono)
    also have "\<dots> = 2 powi (d + 1)"
      by (simp add: d_def power_int_diff power_int_add)
    finally show ?thesis .
  qed
  have e: "ilog2 q = (if 2 powi d \<le> q then d else d - 1)"
    by (simp add: ilog2_def ab d_def Let_def)
  show "2 powi ilog2 q \<le> q" using lo by (simp add: e)
  show "q < 2 powi (ilog2 q + 1)" using hi by (simp add: e not_le)
qed

lemma ilog2_mono:
  assumes "0 < a" and "a \<le> b"
  shows "ilog2 a \<le> ilog2 b"
proof -
  have b: "0 < b" using assms by simp
  have "(2::rat) powi ilog2 a \<le> a" using ilog2_bounds(1)[OF assms(1)] .
  also have "a \<le> b" by fact
  also have "b < 2 powi (ilog2 b + 1)" using ilog2_bounds(2)[OF b] .
  finally have "ilog2 a < ilog2 b + 1" by (simp only: powi2_less_iff)
  then show ?thesis by simp
qed

lemma rne_of_int: "rne (of_int n) = n"
  by (simp add: rne_def)

lemma rne_bounds: "\<lfloor>v\<rfloor> \<le> rne v" "rne v \<le> \<lfloor>v\<rfloor> + 1"
  by (simp_all add: rne_def Let_def)

lemma rne_mono:
  assumes "a \<le> b"
  shows "rne a \<le> rne b"
proof (cases "\<lfloor>a\<rfloor> = \<lfloor>b\<rfloor>")
  case True
  then show ?thesis using assms by (auto simp: rne_def Let_def)
next
  case False
  then have "\<lfloor>a\<rfloor> < \<lfloor>b\<rfloor>" using floor_mono[OF assms] by simp
  then show ?thesis using rne_bounds(2)[of a] rne_bounds(1)[of b] by simp
qed

lemma rne_minus: "rne (- v) = - rne v"
proof (cases "v \<in> \<int>")
  case True
  then obtain n where "v = of_int n" by (auto elim: Ints_cases)
  then show ?thesis using rne_of_int[of "- n"] rne_of_int[of n] by simp
next
  case False
  have ne: "v \<noteq> of_int \<lfloor>v\<rfloor>"
  proof
    assume "v = of_int \<lfloor>v\<rfloor>"
    then have "v \<in> \<int>" by (rule ssubst) (rule Ints_of_int)
    with False show False by simp
  qed
  then have f: "\<lfloor>- v\<rfloor> = - \<lfloor>v\<rfloor> - 1"
    by (simp add: ceiling_altdef floor_minus)
  show ?thesis
    unfolding rne_def Let_def f using ne by (auto simp: algebra_simps)
qed

lemma dbl_alt: "q \<noteq> 0 \<Longrightarrow> dbl q = of_int (rne (q / 2 powi ulp_exp q)) * 2 powi ulp_exp q"
  by (simp add: dbl_def)

lemma dbl_zero: "dbl 0 = 0"
  by (simp add: dbl_def)

lemma dbl_minus: "dbl (- q) = - dbl q"
  by (simp add: dbl_def ulp_exp_def rne_minus)

lemma dbl_upper:
  assumes "0 < q"
  shows "dbl q \<le> 2 powi (ulp_exp q + 53)"
proof -
  let ?k = "ulp_exp q"
  have "q < 2 powi (ilog2 q + 1)" using ilog2_bounds(2)[OF assms] .
  also have "\<dots> \<le> 2 powi (?k + 53)" using assms by (simp add: powi2_le_iff ulp_exp_def)
  finally have "q / 2 powi ?k \<le> 2 powi (?k + 53) / 2 powi ?k"
    by (simp add: divide_right_mono powi2_pos less_imp_le)
  also have "\<dots> = of_int (2 ^ 53)" by (simp add: power_int_add)
  finally have "rne (q / 2 powi ?k) \<le> rne (of_int (2 ^ 53))" by (rule rne_mono)
  then have "rne (q / 2 powi ?k) \<le> 2 ^ 53" by (simp only: rne_of_int)
  then have "(of_int (rne (q / 2 powi ?k)) :: rat) \<le> of_int (2 ^ 53)" by (simp only: of_int_le_iff)
  then have "of_int (rne (q / 2 powi ?k)) * 2 powi ?k \<le> of_int (2 ^ 53) * (2::rat) powi ?k"
    by (rule mult_right_mono) (simp add: less_imp_le powi2_pos)
  also have "\<dots> = 2 powi (?k + 53)" by (simp add: power_int_add)
  finally show ?thesis using assms by (simp add: dbl_alt)
qed

lemma dbl_lower:
  assumes "0 < q" and "- 1022 \<le> ilog2 q"
  shows "2 powi (ulp_exp q + 52) \<le> dbl q"
proof -
  let ?k = "ulp_exp q"
  have k: "?k + 52 = ilog2 q" using assms by (simp add: ulp_exp_def)
  have "(of_int (2 ^ 52) :: rat) = 2 powi (?k + 52) / 2 powi ?k" by (simp add: power_int_add)
  also have "\<dots> \<le> q / 2 powi ?k"
    using ilog2_bounds(1)[OF assms(1)] by (simp only: k divide_right_mono powi2_pos less_imp_le)
  finally have "rne (of_int (2 ^ 52)) \<le> rne (q / 2 powi ?k)" by (rule rne_mono)
  then have "2 ^ 52 \<le> rne (q / 2 powi ?k)" by (simp only: rne_of_int)
  then have "(of_int (2 ^ 52) :: rat) \<le> of_int (rne (q / 2 powi ?k))" by (simp only: of_int_le_iff)
  then have A: "of_int (2 ^ 52) * 2 powi ?k \<le> of_int (rne (q / 2 powi ?k)) * (2::rat) powi ?k"
    by (rule mult_right_mono) (simp add: less_imp_le powi2_pos)
  have B: "of_int (2 ^ 52) * 2 powi ?k = (2::rat) powi (?k + 52)" by (simp add: power_int_add)
  have C: "dbl q = of_int (rne (q / 2 powi ?k)) * 2 powi ?k" using assms by (simp add: dbl_alt)
  from A show ?thesis unfolding B C .
qed

lemma dbl_nonneg:
  assumes "0 \<le> q"
  shows "0 \<le> dbl q"
proof (cases "q = 0")
  case True
  then show ?thesis by (simp add: dbl_zero)
next
  case False
  then have "0 \<le> q / 2 powi ulp_exp q" using assms by (simp add: powi2_pos less_imp_le)
  then have "rne (of_int 0) \<le> rne (q / 2 powi ulp_exp q)" by (intro rne_mono) simp
  then have "0 \<le> rne (q / 2 powi ulp_exp q)" by (simp only: rne_of_int)
  then show ?thesis using False by (simp add: dbl_alt powi2_pos less_imp_le)
qed

lemma dbl_mono_pos:
  assumes "0 < a" and "a \<le> b"
  shows "dbl a \<le> dbl b"
proof -
  have b: "0 < b" using assms by simp
  have le: "ulp_exp a \<le> ulp_exp b" using ilog2_mono[OF assms] assms b by (simp add: ulp_exp_def)
  show ?thesis
  proof (cases "ulp_exp a = ulp_exp b")
    case True
    have "a / 2 powi ulp_exp b \<le> b / 2 powi ulp_exp b"
      using assms(2) by (simp add: divide_right_mono powi2_pos less_imp_le)
    then have "rne (a / 2 powi ulp_exp b) \<le> rne (b / 2 powi ulp_exp b)" by (rule rne_mono)
    then have "(of_int (rne (a / 2 powi ulp_exp b)) :: rat) \<le> of_int (rne (b / 2 powi ulp_exp b))"
      by (simp only: of_int_le_iff)
    then have "of_int (rne (a / 2 powi ulp_exp b)) * 2 powi ulp_exp b
        \<le> of_int (rne (b / 2 powi ulp_exp b)) * (2::rat) powi ulp_exp b"
      by (rule mult_right_mono) (simp add: less_imp_le powi2_pos)
    then show ?thesis using assms b True by (simp add: dbl_alt)
  next
    case False
    with le have lt: "ulp_exp a < ulp_exp b" by simp
    then have n: "- 1022 \<le> ilog2 b" using b by (auto simp: ulp_exp_def max_def split: if_splits)
    have "dbl a \<le> 2 powi (ulp_exp a + 53)" by (rule dbl_upper[OF assms(1)])
    also have "\<dots> \<le> 2 powi (ulp_exp b + 52)" using lt by (simp add: powi2_le_iff)
    also have "\<dots> \<le> dbl b" by (rule dbl_lower[OF b n])
    finally show ?thesis .
  qed
qed

lemma dbl_mono_nonneg:
  assumes "0 \<le> a" and "a \<le> b"
  shows "dbl a \<le> dbl b"
proof (cases "a = 0")
  case True
  then show ?thesis using dbl_nonneg[of b] assms by (simp add: dbl_zero)
next
  case False
  then show ?thesis using assms by (intro dbl_mono_pos) auto
qed

lemma dbl_mono:
  assumes "a \<le> b"
  shows "dbl a \<le> dbl b"
proof (cases "0 \<le> a")
  case True
  then show ?thesis using assms by (rule dbl_mono_nonneg)
next
  case neg: False
  show ?thesis
  proof (cases "0 \<le> b")
    case True
    have "dbl a \<le> 0" using dbl_nonneg[of "- a"] neg by (simp add: dbl_minus)
    also have "0 \<le> dbl b" using True by (rule dbl_nonneg)
    finally show ?thesis .
  next
    case False
    then have "dbl (- b) \<le> dbl (- a)" using assms by (intro dbl_mono_nonneg) auto
    then show ?thesis by (simp add: dbl_minus)
  qed
qed

lemma dbl_exact_pos:
  assumes m: "0 < m" "m < 2 ^ 53" and k: "- 1074 \<le> k"
  shows "dbl (of_int m * 2 powi k) = of_int m * 2 powi k"
proof -
  define q :: rat where "q = of_int m * 2 powi k"
  define K where "K = ulp_exp q"
  have pos: "0 < q" using m(1) by (simp add: q_def powi2_pos)
  have "(of_int m :: rat) < of_int (2 ^ 53)" using m(2) by (simp only: of_int_less_iff)
  then have "q < of_int (2 ^ 53) * 2 powi k" unfolding q_def
    using powi2_pos[of k] by (simp only: mult_less_cancel_right_pos)
  also have "\<dots> = 2 powi (k + 53)" by (simp add: power_int_add)
  finally have "q < 2 powi (k + 53)" .
  with ilog2_bounds(1)[OF pos] have "(2::rat) powi ilog2 q < 2 powi (k + 53)" by simp
  then have "ilog2 q < k + 53" by (simp only: powi2_less_iff)
  then have K: "K \<le> k" using k pos by (simp add: K_def ulp_exp_def)
  define j where "j = nat (k - K)"
  have "(2::rat) powi k = 2 powi (K + int j)" using K by (simp add: j_def)
  also have "\<dots> = 2 powi K * 2 ^ j" by (simp add: power_int_add)
  finally have kk: "(2::rat) powi k = 2 powi K * 2 ^ j" .
  have qq: "q = of_int (m * 2 ^ j) * 2 powi K" by (simp add: q_def kk)
  have "q / 2 powi K = of_int (m * 2 ^ j)"
    using powi2_pos[of K] by (simp add: qq)
  then have "rne (q / 2 powi K) = m * 2 ^ j" by (simp only: rne_of_int)
  then have "dbl q = of_int (m * 2 ^ j) * 2 powi K" using pos by (simp add: dbl_alt K_def)
  from this qq[symmetric] have "dbl q = q" by (rule trans)
  then show ?thesis unfolding q_def .
qed

lemma dbl_of_int:
  assumes "\<bar>m\<bar> < 2 ^ 53"
  shows "dbl (of_int m) = of_int m"
proof -
  have p: "dbl (of_int n) = of_int n" if "0 < n" "n < 2 ^ 53" for n :: int
    using dbl_exact_pos[OF that, of 0] by simp
  consider "m = 0" | "0 < m" | "m < 0" by linarith
  then show ?thesis
  proof cases
    case 1 then show ?thesis by (simp add: dbl_zero)
  next
    case 2 then show ?thesis using assms by (intro p) auto
  next
    case 3
    then have "dbl (of_int (- m)) = of_int (- m)" using assms by (intro p) auto
    then show ?thesis using dbl_minus[of "of_int m"] by simp
  qed
qed

lemma dbl_idem_pos:
  assumes "0 < q"
  shows "dbl (dbl q) = dbl q"
proof -
  let ?k = "ulp_exp q"
  let ?n = "rne (q / 2 powi ?k)"
  have d: "dbl q = of_int ?n * 2 powi ?k" using assms by (simp add: dbl_alt)
  have k: "- 1074 \<le> ?k" by (simp add: ulp_exp_def)
  have "dbl q \<le> 2 powi (?k + 53)" by (rule dbl_upper[OF assms])
  then have "of_int ?n * 2 powi ?k \<le> of_int (2 ^ 53) * (2::rat) powi ?k"
    by (simp add: d power_int_add)
  then have "(of_int ?n :: rat) \<le> of_int (2 ^ 53)"
    using powi2_pos[of ?k] by (simp only: mult_le_cancel_right_pos)
  then have n53: "?n \<le> 2 ^ 53" by (simp only: of_int_le_iff)
  have n0: "0 \<le> ?n" using dbl_nonneg[of q] assms powi2_pos[of ?k]
    by (simp add: d zero_le_mult_iff)
  consider "?n = 0" | "0 < ?n" "?n < 2 ^ 53" | "?n = 2 ^ 53" using n0 n53 by linarith
  then show ?thesis
  proof cases
    case 1 then show ?thesis by (simp add: d dbl_zero)
  next
    case 2 then show ?thesis unfolding d by (intro dbl_exact_pos k)
  next
    case 3
    have "of_int ?n * (2::rat) powi ?k = of_int 1 * 2 powi (?k + 53)"
      by (simp add: 3 power_int_add)
    moreover have "dbl (of_int 1 * 2 powi (?k + 53)) = of_int 1 * 2 powi (?k + 53)"
      using k by (intro dbl_exact_pos) auto
    ultimately show ?thesis by (simp only: d)
  qed
qed

lemma dbl_idem: "dbl (dbl q) = dbl q"
proof -
  consider "q = 0" | "0 < q" | "q < 0" by linarith
  then show ?thesis
  proof cases
    case 1 then show ?thesis by (simp add: dbl_zero)
  next
    case 2 then show ?thesis by (rule dbl_idem_pos)
  next
    case 3
    then have "dbl (dbl (- q)) = dbl (- q)" by (intro dbl_idem_pos) simp
    then show ?thesis by (simp add: dbl_minus)
  qed
qed

section \<open>Random numbers in a range\<close>

lemma js_sub_of_int:
  assumes "\<bar>b - a\<bar> < 2 ^ 53"
  shows "js_sub (of_int b) (of_int a) = of_int (b - a)"
  using dbl_of_int[OF assms] by (simp add: js_sub_def)

lemma rand_bounds:
  assumes u: "is_random u" and ab: "a \<le> b"
    and sz: "\<bar>a\<bar> < 2 ^ 53" "\<bar>b\<bar> < 2 ^ 53" "b - a < 2 ^ 53"
  shows "of_int a \<le> rand u (of_int a) (of_int b)" and "rand u (of_int a) (of_int b) \<le> of_int b"
proof -
  define w :: rat where "w = of_int (b - a)"
  define z where "z = js_mul u w"
  have u0: "0 \<le> u" and u1: "u < 1" using u by (simp_all add: is_random_def)
  have w0: "0 \<le> w" using ab by (simp add: w_def)
  have dw: "dbl w = w" unfolding w_def using ab sz(3) by (intro dbl_of_int) simp
  have sub: "js_sub (of_int b) (of_int a) = w"
    unfolding w_def using ab sz(3) by (intro js_sub_of_int) simp
  have z0: "0 \<le> z" unfolding z_def js_mul_def using u0 w0 by (intro dbl_nonneg) simp
  have "u * w \<le> w" using mult_right_mono[of u 1 w] u1 w0 by simp
  then have "dbl (u * w) \<le> dbl w" by (rule dbl_mono)
  then have zw: "z \<le> w" by (simp add: z_def js_mul_def dw)
  have r: "rand u (of_int a) (of_int b) = dbl (z + of_int a)"
    by (simp add: rand_def sub z_def js_add_def)
  have "dbl (of_int a) \<le> dbl (z + of_int a)" using z0 by (intro dbl_mono) simp
  then show "of_int a \<le> rand u (of_int a) (of_int b)" by (simp add: r dbl_of_int[OF sz(1)])
  have "z + of_int a \<le> of_int b" using zw by (simp add: w_def)
  then have "dbl (z + of_int a) \<le> dbl (of_int b)" by (rule dbl_mono)
  then show "rand u (of_int a) (of_int b) \<le> of_int b" by (simp add: r dbl_of_int[OF sz(2)])
qed

lemma randi_range:
  assumes "is_random u" and "a \<le> b" and "\<bar>a\<bar> < 2 ^ 53" "\<bar>b\<bar> < 2 ^ 53" "b - a < 2 ^ 53"
  shows "\<exists>k. randi u (of_int a) (of_int b) = of_int k \<and> a \<le> k \<and> k \<le> b"
proof -
  let ?r = "rand u (of_int a) (of_int b)"
  have "a \<le> \<lfloor>?r\<rfloor>" using rand_bounds(1)[OF assms] by (simp add: le_floor_iff)
  moreover have "\<lfloor>?r\<rfloor> \<le> b" using rand_bounds(2)[OF assms] floor_mono[of ?r "of_int b"] by simp
  ultimately show ?thesis by (auto simp: randi_def Math_floor_def)
qed

lemma rand_is_double: "dbl (rand u mn mx) = rand u mn mx"
  by (simp add: rand_def js_add_def dbl_idem)

section \<open>Weighted choice\<close>

lemma weightedChoice_loop_mem:
  "weightedChoice_loop roll ps = Some v \<Longrightarrow> v \<in> fst ` set ps"
proof (induction ps arbitrary: roll)
  case Nil
  then show ?case by simp
next
  case (Cons p ps)
  obtain a w where p: "p = (a, w)" by (cases p)
  show ?case
  proof (cases "js_sub roll w \<le> 0")
    case True
    with Cons.prems p show ?thesis by simp
  next
    case False
    with Cons.prems p have "weightedChoice_loop (js_sub roll w) ps = Some v" by simp
    from Cons.IH[OF this] show ?thesis by simp
  qed
qed

lemma weightedChoice_mem:
  assumes "weightedChoice u ps = Some v"
  shows "v \<in> fst ` set ps"
proof (cases "weightedChoice_loop (js_mul u (foldl (\<lambda>s (_, w). js_add s w) 0 ps)) ps")
  case None
  then show ?thesis using assms by (auto simp: weightedChoice_def Let_def split: if_splits)
next
  case (Some a)
  then show ?thesis using assms weightedChoice_loop_mem[OF Some]
    by (simp add: weightedChoice_def Let_def)
qed

lemma weightedChoice_total:
  assumes "ps \<noteq> []"
  shows "\<exists>v. weightedChoice u ps = Some v"
  using assms by (simp add: weightedChoice_def Let_def split: option.splits)

section \<open>Profiles\<close>

lemma generate_total: "\<exists>p. generate d = Some p"
proof -
  have "emotional \<noteq> []" by (simp add: emotional_def)
  from weightedChoice_total[OF this] obtain m where "weightedChoice (u_mood d) emotional = Some m"
    by blast
  then show ?thesis by (simp add: generate_def Let_def)
qed

lemma generate_fields:
  assumes "generate d = Some p"
  shows "\<exists>mood. weightedChoice (u_mood d) emotional = Some mood \<and> emotional_state p = mood
           \<and> industry p = choice (u_industry d) industries
           \<and> income_usd p = sampleIncome (u_income d) (industry p)
           \<and> risk_score p = riskFromIncomeAndMood (u_risk d) (income_usd p) mood
           \<and> interests p = interestsSet (u_interests d) (shuffled_pool d)"
  using assms by (auto simp: generate_def Let_def split: option.splits)

lemma moodBias_lookup:
  "(case map_of moodBias mood of Some b \<Rightarrow> b | None \<Rightarrow> 0) = moodAdjustment mood"
  by (simp add: moodBias_def moodAdjustment_def)

lemma riskFromIncomeAndMood_spec:
  "riskFromIncomeAndMood u income mood = risk_spec u income mood"
proof -
  have z: "js_add (rand u 10 90) 0 = rand u 10 90"
    by (simp add: js_add_def rand_is_double)
  have m: "js_sub (rand u 10 90) 10 = js_add (rand u 10 90) (- 10)"
    by (simp add: js_add_def js_sub_def)
  show ?thesis
    by (simp add: riskFromIncomeAndMood_def risk_spec_def incomeAdjustment_def Let_def
        moodBias_lookup z m)
qed

lemma clamp_range: "a \<le> b \<Longrightarrow> a \<le> clamp v a b \<and> clamp v a b \<le> b"
  by (simp add: clamp_def)

lemma riskFromIncomeAndMood_range:
  "0 \<le> riskFromIncomeAndMood u income mood \<and> riskFromIncomeAndMood u income mood \<le> 100"
  unfolding riskFromIncomeAndMood_def Let_def by (rule clamp_range) simp

section \<open>Risk score\<close>

text \<open>
  C1. For every generated profile the risk score equals
  \<^verbatim>\<open>clamp(round(uniform(10,90) + incomeAdjustment + moodAdjustment), 0, 100)\<close>, with the
  income adjustment \<open>-10\<close> above 150000 and \<open>+10\<close> below 40000, and the mood adjustment
  the fixed offset of the profile's mood; hence it lies in \<open>[0, 100]\<close>. The generator
  always returns a profile.
\<close>

theorem risk_score_is_clamped_formula:
  "\<exists>p. generate d = Some p
     \<and> risk_score p = risk_spec (u_risk d) (income_usd p) (emotional_state p)
     \<and> 0 \<le> risk_score p \<and> risk_score p \<le> 100"
proof -
  obtain p where p: "generate d = Some p" using generate_total by blast
  from generate_fields[OF p]
  have r: "risk_score p = riskFromIncomeAndMood (u_risk d) (income_usd p) (emotional_state p)"
    by auto
  show ?thesis
    using p riskFromIncomeAndMood_range[of "u_risk d" "income_usd p" "emotional_state p"]
    by (simp add: r riskFromIncomeAndMood_spec)
qed

theorem risk_score_is_clamped_formula_witness:
  "\<exists>p. generate demo_profile_draws = Some p
     \<and> risk_score p = risk_spec (3 / 8) (income_usd p) (emotional_state p)
     \<and> 0 \<le> risk_score p \<and> risk_score p \<le> 100"
  using risk_score_is_clamped_formula[of demo_profile_draws] by (simp add: demo_profile_draws_def)

section \<open>Interests\<close>

lemma interests_pool_distinct: "distinct interests_pool"
  by (simp add: interests_pool_def)

lemma interestsSet_properties:
  assumes u: "is_random u" and s: "is_shuffle shuffled"
  shows "2 \<le> length (interestsSet u shuffled)" and "length (interestsSet u shuffled) \<le> 6"
    and "distinct (interestsSet u shuffled)" and "set (interestsSet u shuffled) \<subseteq> set interests_pool"
proof -
  have m: "mset shuffled = mset interests_pool" using s by (simp add: is_shuffle_def)
  from randi_range[OF u, of 2 6] obtain k where
    k: "randi u 2 6 = of_int k" "2 \<le> k" "k \<le> 6" by auto
  have i: "interestsSet u shuffled = take (nat k) shuffled"
    by (simp add: interestsSet_def k(1))
  have "length shuffled = length interests_pool" using m by (rule mset_eq_length)
  then have len: "length shuffled = 14" by (simp add: interests_pool_def)
  show "2 \<le> length (interestsSet u shuffled)" using k len by (simp add: i)
  show "length (interestsSet u shuffled) \<le> 6" using k len by (simp add: i)
  have "distinct shuffled" using interests_pool_distinct by (simp add: mset_eq_imp_distinct_iff[OF m])
  then show "distinct (interestsSet u shuffled)" by (simp add: i)
  have "set shuffled = set interests_pool" using m by (rule mset_eq_setD)
  then show "set (interestsSet u shuffled) \<subseteq> set interests_pool"
    using set_take_subset[of "nat k" shuffled] by (simp add: i)
qed

text \<open>
  C5. For every generated profile the interests are between two and six items, all
  different, taken from the fixed pool. The hypotheses say that the draw is a value of
  \<^verbatim>\<open>Math.random()\<close> and that the host's sort returned a rearrangement of the pool.
\<close>

theorem interests_two_to_six_unique:
  assumes "is_random (u_interests d)" and "is_shuffle (shuffled_pool d)"
  shows "\<exists>p. generate d = Some p
     \<and> 2 \<le> length (interests p) \<and> length (interests p) \<le> 6
     \<and> distinct (interests p) \<and> set (interests p) \<subseteq> set interests_pool"
proof -
  obtain p where p: "generate d = Some p" using generate_total by blast
  from generate_fields[OF p]
  have i: "interests p = interestsSet (u_interests d) (shuffled_pool d)" by auto
  show ?thesis using p interestsSet_properties[OF assms] by (simp add: i)
qed

theorem interests_two_to_six_unique_witness:
  "is_random (u_interests demo_profile_draws) \<and> is_shuffle (shuffled_pool demo_profile_draws)
   \<and> (\<exists>p. generate demo_profile_draws = Some p
     \<and> 2 \<le> length (interests p) \<and> length (interests p) \<le> 6
     \<and> distinct (interests p) \<and> set (interests p) \<subseteq> set interests_pool)"
proof -
  have a: "is_random (u_interests demo_profile_draws)"
    by (simp add: demo_profile_draws_def is_random_def)
  have b: "is_shuffle (shuffled_pool demo_profile_draws)"
    by (simp add: demo_profile_draws_def is_shuffle_def)
  from interests_two_to_six_unique[OF a b] a b show ?thesis by simp
qed

text \<open>The upper end is met: a draw one unit in the last place below 1 gives six.\<close>

lemma randi_2_6_reaches_6: "is_random (1 - 1 / 2 ^ 53) \<and> randi (1 - 1 / 2 ^ 53) 2 6 = 6"
  by code_simp

section \<open>Income\<close>

lemma income_range_shape:
  "\<exists>a b. income_range ind = (of_int (1000 * a), of_int (1000 * b)) \<and> 0 \<le> a \<and> a \<le> b \<and> b \<le> 1000"
proof -
  let ?P = "\<lambda>r :: rat \<times> rat. fst r = of_int (1000 * \<lfloor>fst r / 1000\<rfloor>)
     \<and> snd r = of_int (1000 * \<lfloor>snd r / 1000\<rfloor>) \<and> 0 \<le> \<lfloor>fst r / 1000\<rfloor>
     \<and> \<lfloor>fst r / 1000\<rfloor> \<le> \<lfloor>snd r / 1000\<rfloor> \<and> \<lfloor>snd r / 1000\<rfloor> \<le> 1000"
  have tab: "\<forall>e \<in> set income_base. ?P (snd e)" by (simp add: income_base_def)
  have fb: "?P (40000, 120000)" by simp
  have "?P (income_range ind)"
  proof (cases "Option.bind ind (map_of income_base)")
    case None
    then show ?thesis using fb by (simp add: income_range_def)
  next
    case (Some r)
    then obtain s where "map_of income_base s = Some r" by (cases ind) auto
    then have "(s, r) \<in> set income_base" by (rule map_of_SomeD)
    with tab have "?P r" by force
    then show ?thesis using Some by (simp add: income_range_def)
  qed
  then have "income_range ind = (of_int (1000 * \<lfloor>fst (income_range ind) / 1000\<rfloor>),
      of_int (1000 * \<lfloor>snd (income_range ind) / 1000\<rfloor>))
    \<and> 0 \<le> \<lfloor>fst (income_range ind) / 1000\<rfloor>
    \<and> \<lfloor>fst (income_range ind) / 1000\<rfloor> \<le> \<lfloor>snd (income_range ind) / 1000\<rfloor>
    \<and> \<lfloor>snd (income_range ind) / 1000\<rfloor> \<le> 1000"
    by (cases "income_range ind") simp
  then show ?thesis by blast
qed

lemma sampleIncome_thousands:
  assumes u: "is_random u"
    and r: "income_range ind = (of_int (1000 * a), of_int (1000 * b))"
    and ab: "0 \<le> a" "a \<le> b" "b \<le> 1000"
  shows "\<exists>k. a \<le> k \<and> k \<le> b \<and> sampleIncome u ind = of_int (1000 * k)"
proof -
  let ?r = "rand u (of_int (1000 * a)) (of_int (1000 * b))"
  have "of_int (1000 * a) \<le> ?r" and "?r \<le> of_int (1000 * b)"
    using ab by (intro rand_bounds[OF u]; simp)+
  then have lo: "of_int a \<le> ?r / 1000" and hi: "?r / 1000 \<le> of_int b" by simp_all
  define q where "q = js_div ?r 1000"
  have "dbl (of_int a) \<le> dbl (?r / 1000)" using lo by (rule dbl_mono)
  moreover have "dbl (of_int a) = of_int a" using ab by (intro dbl_of_int) simp
  ultimately have qa: "of_int a \<le> q" by (simp add: q_def js_div_def)
  have "dbl (?r / 1000) \<le> dbl (of_int b)" using hi by (rule dbl_mono)
  moreover have "dbl (of_int b) = of_int b" using ab by (intro dbl_of_int) simp
  ultimately have qb: "q \<le> of_int b" by (simp add: q_def js_div_def)
  define k where "k = \<lfloor>q + 1 / 2\<rfloor>"
  have ka: "a \<le> k" unfolding k_def using qa by (simp add: le_floor_iff)
  have "q + 1 / 2 < of_int (b + 1)" using qb by simp
  then have "k < b + 1" unfolding k_def by (simp only: floor_less_iff)
  then have kb: "k \<le> b" by simp
  have "js_mul (of_int k) 1000 = dbl (of_int (k * 1000))" by (simp add: js_mul_def)
  also have "\<dots> = of_int (k * 1000)" using ka kb ab by (intro dbl_of_int) simp
  finally have "js_mul (Math_round q) 1000 = of_int (1000 * k)"
    by (simp add: Math_round_def k_def mult.commute)
  then have "sampleIncome u ind = of_int (1000 * k)"
    by (simp add: sampleIncome_def r q_def)
  with ka kb show ?thesis by blast
qed

lemma sampleIncome_in_range:
  assumes "is_random u"
  shows "\<exists>k::int. sampleIncome u ind = of_int (1000 * k)"
    and "fst (income_range ind) \<le> sampleIncome u ind"
    and "sampleIncome u ind \<le> snd (income_range ind)"
proof -
  from income_range_shape[of ind] obtain a b where
    r: "income_range ind = (of_int (1000 * a), of_int (1000 * b))"
    and ab: "0 \<le> a" "a \<le> b" "b \<le> 1000" by blast
  from sampleIncome_thousands[OF assms r ab] obtain k where
    k: "a \<le> k" "k \<le> b" "sampleIncome u ind = of_int (1000 * k)" by blast
  show "\<exists>k::int. sampleIncome u ind = of_int (1000 * k)" using k(3) by blast
  show "fst (income_range ind) \<le> sampleIncome u ind" using k by (simp add: r)
  show "sampleIncome u ind \<le> snd (income_range ind)" using k by (simp add: r)
qed

text \<open>
  C6. For every generated profile the income is a multiple of 1000 and lies within the
  range \<open>[low, high]\<close> that \<^verbatim>\<open>sampleIncome\<close> uses for the industry of the profile. The
  hypothesis says that the draw is a value of \<^verbatim>\<open>Math.random()\<close>.
\<close>

theorem income_multiple_of_1000_in_range:
  assumes "is_random (u_income d)"
  shows "\<exists>p. generate d = Some p
     \<and> (\<exists>k::int. income_usd p = of_int (1000 * k))
     \<and> fst (income_range (industry p)) \<le> income_usd p
     \<and> income_usd p \<le> snd (income_range (industry p))"
proof -
  obtain p where p: "generate d = Some p" using generate_total by blast
  from generate_fields[OF p]
  have i: "income_usd p = sampleIncome (u_income d) (industry p)" by auto
  show ?thesis using p sampleIncome_in_range[OF assms, of "industry p"] by (simp add: i)
qed

theorem income_multiple_of_1000_in_range_witness:
  "is_random (u_income demo_profile_draws)
   \<and> (\<exists>p. generate demo_profile_draws = Some p
     \<and> (\<exists>k::int. income_usd p = of_int (1000 * k))
     \<and> fst (income_range (industry p)) \<le> income_usd p
     \<and> income_usd p \<le> snd (income_range (industry p)))"
proof -
  have a: "is_random (u_income demo_profile_draws)"
    by (simp add: demo_profile_draws_def is_random_def)
  from income_multiple_of_1000_in_range[OF a] a show ?thesis by simp
qed

section \<open>Column count\<close>

lemma columnCount_resetColumns:
  "columnCount (resetColumns cv cfg ds rain) =
     Math_max 8 (Math_floor (js_mul (js_div (clientWidth cv) (glyphSize rain))
                    (js_mul (dbl (7 / 10)) (densityScale cfg))))"
  by (simp add: resetColumns_def Let_def)

lemma glyphSize_resetColumns: "glyphSize (resetColumns cv cfg ds rain) = glyphSize rain"
  by (simp add: resetColumns_def Let_def)

lemma count_800_dense_reset:
  "Math_max 8 (Math_floor (js_mul (js_div 800 16) (js_mul (dbl (7 / 10)) (dbl (16 / 10))))) = 55"
  by code_simp

lemma count_800_dense_update:
  "Math_max 8 (Math_floor (js_mul (js_mul (js_div 800 16) (dbl (7 / 10))) (dbl (16 / 10)))) = 56"
  by code_simp

lemma count_800_default_reset:
  "Math_max 8 (Math_floor (js_mul (js_div 800 16) (js_mul (dbl (7 / 10)) 1))) = 35"
  by code_simp

lemma count_800_default_update:
  "Math_max 8 (Math_floor (js_mul (js_mul (js_div 800 16) (dbl (7 / 10))) 1)) = 35"
  by code_simp

text \<open>The scenario of the specification: width 800, cell 16, density 1.0 give 35 on both
  paths.\<close>

lemma scenario_800_16_default:
  "columnCount (new_MatrixRain demo_canvas CONFIG ds) = 35
   \<and> desiredCols demo_canvas CONFIG (new_MatrixRain demo_canvas CONFIG ds) = 35"
  by (simp add: new_MatrixRain_def columnCount_resetColumns glyphSize_resetColumns desiredCols_def
      demo_canvas_def CONFIG_def count_800_default_reset count_800_default_update)

text \<open>
  C2. The claim is that \<^verbatim>\<open>resetColumns\<close> and the drift detection of \<^verbatim>\<open>update\<close> compute
  the same column count for every width and density. The two paths multiply in a
  different order, \<open>(w / size) * (0.7 * density)\<close> against \<open>((w / size) * 0.7) * density\<close>,
  and the roundings differ: at width 800 with density 1.6 (the value of the \<^verbatim>\<open>dense\<close>
  preset) \<^verbatim>\<open>resetColumns\<close> builds 55 columns while \<^verbatim>\<open>update\<close> asks for 56, so \<^verbatim>\<open>update\<close>
  finds a difference on the freshly built field and rebuilds it instead of advancing
  the columns.
\<close>

theorem dense_preset_counts_differ:
  "columnCount (new_MatrixRain demo_canvas (CONFIG\<lparr>densityScale := dbl (16 / 10)\<rparr>) ds) = 55
   \<and> desiredCols demo_canvas (CONFIG\<lparr>densityScale := dbl (16 / 10)\<rparr>)
        (new_MatrixRain demo_canvas (CONFIG\<lparr>densityScale := dbl (16 / 10)\<rparr>) ds) = 56
   \<and> update demo_canvas (CONFIG\<lparr>densityScale := dbl (16 / 10)\<rparr>) ds' fds dt
        (new_MatrixRain demo_canvas (CONFIG\<lparr>densityScale := dbl (16 / 10)\<rparr>) ds)
      = resetColumns demo_canvas (CONFIG\<lparr>densityScale := dbl (16 / 10)\<rparr>) ds'
          (new_MatrixRain demo_canvas (CONFIG\<lparr>densityScale := dbl (16 / 10)\<rparr>) ds)"
proof -
  let ?cfg = "CONFIG\<lparr>densityScale := dbl (16 / 10)\<rparr>"
  let ?rain = "new_MatrixRain demo_canvas ?cfg ds"
  have a: "columnCount ?rain = 55"
    using count_800_dense_reset
    by (simp add: new_MatrixRain_def columnCount_resetColumns demo_canvas_def)
  have b: "desiredCols demo_canvas ?cfg ?rain = 56"
    using count_800_dense_update
    by (simp add: new_MatrixRain_def glyphSize_resetColumns desiredCols_def demo_canvas_def)
  have c: "update demo_canvas ?cfg ds' fds dt ?rain = resetColumns demo_canvas ?cfg ds' ?rain"
    unfolding update_def a b by simp
  from a b c show ?thesis by simp
qed

section \<open>Glyph selection in draw\<close>

lemma js_mod_of_nat:
  assumes "0 < b"
  shows "js_mod (of_nat a) (of_nat b) = of_nat (a mod b)"
proof -
  have f: "\<lfloor>(of_nat a :: rat) / of_nat b\<rfloor> = int (a div b)"
    by (simp add: floor_divide_of_nat_eq)
  have "(of_nat (b * (a div b) + a mod b) :: rat) = of_nat a" by (simp only: mult_div_mod_eq)
  then have "of_nat b * of_nat (a div b) + (of_nat (a mod b) :: rat) = of_nat a"
    by (simp only: of_nat_add of_nat_mult)
  then have "(of_nat a :: rat) - of_nat b * of_nat (a div b) = of_nat (a mod b)"
    by linarith
  then show ?thesis by (simp add: js_mod_def f)
qed

lemma dbl_of_nat:
  assumes "n < 2 ^ 53"
  shows "dbl (of_nat n) = of_nat n"
proof -
  have "\<bar>int n\<bar> < 2 ^ 53" using assms by (simp add: nat_less_iff flip: of_nat_less_iff)
  from dbl_of_int[OF this] show ?thesis by simp
qed

lemma glyph_slot_zero:
  assumes len: "0 < length (glyphIndices col)" and sz: "i + length (glyphIndices col) < 2 ^ 53"
  shows "glyph_slot col i = 0"
proof -
  define n where "n = length (glyphIndices col)"
  have n0: "0 < n" and small: "i + n < 2 ^ 53" using len sz by (simp_all add: n_def)
  have lt: "i mod n < n" using n0 by simp
  have m1: "js_mod (of_nat i) (of_nat n) = of_nat (i mod n)" using n0 by (rule js_mod_of_nat)
  have "js_sub (of_nat n) (of_nat (i mod n)) = dbl (of_nat (n - i mod n))"
    using lt by (simp add: js_sub_def)
  also have "\<dots> = of_nat (n - i mod n)" using small by (intro dbl_of_nat) simp
  finally have s: "js_sub (of_nat n) (of_nat (i mod n)) = of_nat (n - i mod n)" .
  have "js_add (of_nat i) (of_nat (n - i mod n)) = dbl (of_nat (i + (n - i mod n)))"
    by (simp add: js_add_def)
  also have "\<dots> = of_nat (i + (n - i mod n))" using small by (intro dbl_of_nat) simp
  finally have a: "js_add (of_nat i) (of_nat (n - i mod n)) = of_nat (i + (n - i mod n))" .
  have "i + (n - i mod n) = n * (i div n) + n"
    using mult_div_mod_eq[of n i] lt by linarith
  then have z: "(i + (n - i mod n)) mod n = 0" by simp
  have "js_mod (of_nat (i + (n - i mod n))) (of_nat n) = of_nat ((i + (n - i mod n)) mod n)"
    using n0 by (rule js_mod_of_nat)
  then show ?thesis by (simp add: glyph_slot_def Let_def n_def[symmetric] m1 s a z)
qed

lemma draw_glyph_first:
  assumes "0 < length (glyphIndices col)" and "glyph_slot col i = 0"
  shows "draw_glyph col i = glyphIndices col ! 0"
  using assms by (simp add: draw_glyph_def js_index_def)

lemma js_store_length:
  "length arr \<le> length (js_store arr j v)"
  "length (js_store arr j v) \<le> max (length arr) (nat \<lfloor>j\<rfloor> + 1)"
  by (auto simp: js_store_def)

lemma js_store_first:
  assumes "0 < length arr" and "j \<noteq> 0"
  shows "js_store arr j v ! 0 = arr ! 0"
proof (cases "of_int \<lfloor>j\<rfloor> = j \<and> 0 \<le> j")
  case False
  then show ?thesis by (auto simp: js_store_def)
next
  case True
  then have "nat \<lfloor>j\<rfloor> \<noteq> 0" using assms(2) by (metis nat_0_iff of_int_0 antisym floor_mono floor_zero)
  then show ?thesis using assms(1) True by (auto simp: js_store_def nth_append)
qed

text \<open>
  C9. A column has sixty glyph indices and a stream length below sixty. For every
  trail position \<open>i\<close> below the stream length the expression
  \<^verbatim>\<open>(i + (len - i % len)) % len\<close> of \<^verbatim>\<open>draw\<close> is 0, so every glyph of the column is
  drawn with the atlas index \<^verbatim>\<open>glyphIndices[0]\<close>, and a write to any slot \<open>j\<close> other
  than 0 (the slots \<^verbatim>\<open>update\<close> can pick are at most 60) leaves the drawn glyph
  unchanged.
\<close>

theorem draw_reads_only_first_glyph:
  assumes "length (glyphIndices col) = 60" and "streamLength col < 60"
    and "of_nat i < streamLength col"
  shows "glyph_slot col i = 0 \<and> draw_glyph col i = glyphIndices col ! 0
     \<and> (\<forall>j v. j \<noteq> 0 \<and> j \<le> 60 \<longrightarrow>
          draw_glyph (col\<lparr>glyphIndices := js_store (glyphIndices col) j v\<rparr>) i = draw_glyph col i)"
proof -
  have "(of_nat i :: rat) < of_nat 60" using assms(2,3) by simp
  then have i: "i < 60" by (simp only: of_nat_less_iff)
  have s: "glyph_slot col i = 0" using assms(1) i by (intro glyph_slot_zero) simp_all
  have g: "draw_glyph col i = glyphIndices col ! 0" using assms(1) s by (intro draw_glyph_first) simp_all
  have m: "draw_glyph (col\<lparr>glyphIndices := js_store (glyphIndices col) j v\<rparr>) i = draw_glyph col i"
    if j: "j \<noteq> 0" "j \<le> 60" for j v
  proof -
    let ?c = "col\<lparr>glyphIndices := js_store (glyphIndices col) j v\<rparr>"
    have fl: "\<lfloor>j\<rfloor> \<le> \<lfloor>60 :: rat\<rfloor>" using j(2) by (rule floor_mono)
    have f60: "\<lfloor>60 :: rat\<rfloor> = 60" by simp
    from fl have "\<lfloor>j\<rfloor> \<le> 60" unfolding f60 .
    then have "nat \<lfloor>j\<rfloor> \<le> 60" by linarith
    then have "max (length (glyphIndices col)) (nat \<lfloor>j\<rfloor> + 1) \<le> 61" using assms(1) by simp
    with js_store_length(2)[of "glyphIndices col" j v]
    have "length (js_store (glyphIndices col) j v) \<le> 61" by (rule le_trans)
    then have up: "length (glyphIndices ?c) \<le> 61" by simp
    have "60 \<le> length (js_store (glyphIndices col) j v)"
      using js_store_length(1)[of "glyphIndices col" j v] assms(1) by simp
    then have "0 < length (js_store (glyphIndices col) j v)" by linarith
    then have lo: "0 < length (glyphIndices ?c)" by simp
    have "glyph_slot ?c i = 0" using lo up i by (intro glyph_slot_zero) simp_all
    with lo have "draw_glyph ?c i = glyphIndices ?c ! 0" by (rule draw_glyph_first)
    also have "\<dots> = glyphIndices col ! 0" using assms(1) j(1) by (simp add: js_store_first)
    finally show ?thesis by (simp add: g)
  qed
  from s g m show ?thesis by blast
qed

theorem draw_reads_only_first_glyph_witness:
  "length (glyphIndices demo_column) = 60 \<and> streamLength demo_column < 60
   \<and> of_nat 5 < streamLength demo_column
   \<and> glyph_slot demo_column 5 = 0 \<and> draw_glyph demo_column 5 = glyphIndices demo_column ! 0
   \<and> draw_glyph (demo_column\<lparr>glyphIndices := js_store (glyphIndices demo_column) 7 99\<rparr>) 5
        = draw_glyph demo_column 5"
proof -
  have a: "length (glyphIndices demo_column) = 60" by (simp add: demo_column_def)
  have b: "streamLength demo_column < 60" by (simp add: demo_column_def)
  have c: "of_nat 5 < streamLength demo_column" by (simp add: demo_column_def)
  note t = draw_reads_only_first_glyph[OF a b c]
  from t have m: "\<forall>j v. j \<noteq> 0 \<and> j \<le> 60 \<longrightarrow>
          draw_glyph (demo_column\<lparr>glyphIndices := js_store (glyphIndices demo_column) j v\<rparr>) 5
            = draw_glyph demo_column 5" by blast
  have "draw_glyph (demo_column\<lparr>glyphIndices := js_store (glyphIndices demo_column) 7 99\<rparr>) 5
        = draw_glyph demo_column 5"
    using m[rule_format, of 7 99] by simp
  with t a b c show ?thesis by blast
qed

text \<open>Columns made by \<^verbatim>\<open>spawnColumn\<close> have that shape.\<close>

lemma spawnColumn_shape:
  assumes "is_random (d_streamLength d)"
  shows "length (glyphIndices (spawnColumn cv cfg rain d index screenH)) = 60"
    and "10 \<le> streamLength (spawnColumn cv cfg rain d index screenH)"
    and "streamLength (spawnColumn cv cfg rain d index screenH) \<le> 40"
proof -
  from randi_range[OF assms, of 10 40] obtain k where
    k: "randi (d_streamLength d) 10 40 = of_int k" "10 \<le> k" "k \<le> 40" by auto
  show "length (glyphIndices (spawnColumn cv cfg rain d index screenH)) = 60"
    by (simp add: spawnColumn_def)
  show "10 \<le> streamLength (spawnColumn cv cfg rain d index screenH)"
    using k by (simp add: spawnColumn_def)
  show "streamLength (spawnColumn cv cfg rain d index screenH) \<le> 40"
    using k by (simp add: spawnColumn_def)
qed

text \<open>The slot that \<^verbatim>\<open>update\<close> picks for a mutation of a sixty-element array is at most 60.\<close>

lemma update_mutation_slot:
  assumes "is_random u"
  shows "0 \<le> randi u 0 60" and "randi u 0 60 \<le> 60"
proof -
  from randi_range[OF assms, of 0 60] obtain k where
    k: "randi u 0 60 = of_int k" "0 \<le> k" "k \<le> 60" by auto
  show "0 \<le> randi u 0 60" using k by simp
  show "randi u 0 60 \<le> 60" using k by simp
qed

text \<open>The whole trail of such a column is drawn with the first glyph index.\<close>

lemma draw_column_all_first:
  assumes "length (glyphIndices col) = 60" and "streamLength col < 60"
  shows "draw_column col = replicate (nat \<lceil>streamLength col\<rceil>) (glyphIndices col ! 0)"
proof -
  have "\<lceil>streamLength col\<rceil> \<le> \<lceil>60 :: rat\<rceil>" using assms(2) by (intro ceiling_mono) simp
  moreover have "\<lceil>60 :: rat\<rceil> = 60" by simp
  ultimately have "\<lceil>streamLength col\<rceil> \<le> 60" by (simp only:)
  then have n: "nat \<lceil>streamLength col\<rceil> \<le> 60" by linarith
  have "draw_glyph col i = glyphIndices col ! 0" if "i < nat \<lceil>streamLength col\<rceil>" for i
  proof -
    have "i < 60" using that n by simp
    then have "glyph_slot col i = 0" using assms(1) by (intro glyph_slot_zero) simp_all
    then show ?thesis using assms(1) by (intro draw_glyph_first) simp_all
  qed
  then show ?thesis by (simp add: draw_column_def list_eq_iff_nth_eq)
qed

section \<open>Inline capsule text\<close>

lemma formatMoneyUSD_examples:
  "formatMoneyUSD 95000 = Some ''$95,000''" "formatMoneyUSD (- 1234) = Some ''-$1,234''"
  by code_simp+

lemma Number_toString_examples:
  "Number_toString 30 = Some ''30''" "Number_toString 40 = Some ''40''"
  by code_simp+

text \<open>
  C4. A spawn in mode \<^verbatim>\<open>inline\<close> with a profile whose id is \<^verbatim>\<open>x1-abcd\<close>, age 30, job title
  \<^verbatim>\<open>Engineer\<close>, emotional state \<^verbatim>\<open>calm\<close>, income 95000 and risk score 40 builds exactly
  the text \<^verbatim>\<open>id=x1-abcd | age=30 | job=Engineer | emotional=calm | income=$95,000 | risk=40\<close>,
  whatever the other fields are.
\<close>

theorem inline_text_scenario:
  "capsule_text h (Some ''inline'')
     (p\<lparr>profile_id := ''x1-abcd'', age := 30, job_title := Some ''Engineer'',
        emotional_state := ''calm'', income_usd := 95000, risk_score := 40\<rparr>)
   = Some ''id=x1-abcd | age=30 | job=Engineer | emotional=calm | income=$95,000 | risk=40''"
  by (simp add: capsule_text_def formatMoneyUSD_examples Number_toString_examples js_str_def)

section \<open>Sparkline\<close>

text \<open>A risk score of 100 is produced by the generator's formula.\<close>

lemma risk_score_100_reachable: "riskFromIncomeAndMood (15 / 16) 30000 ''burnout'' = 100"
  by code_simp

text \<open>
  C10. The claim is that for every sampled value \<open>v\<close> the index \<^verbatim>\<open>floor(v / 12.5)\<close> lies
  within \<open>[0, 7]\<close>. For \<open>v = 100\<close> the index is 8, one past the end of the eight blocks:
  \<^verbatim>\<open>blocks[8]\<close> is \<^verbatim>\<open>undefined\<close> and \<^verbatim>\<open>join\<close> drops it. With seed 100 and every draw at
  0.5 (no jitter) all ten ticks are dropped and the sparkline is empty.
\<close>

theorem sparkline_index_out_of_range:
  "block_index 100 = 8 \<and> js_index blocks (block_index 100) = None
   \<and> makeSparkline (\<lambda>_. 1 / 2) 100 = []"
proof -
  have v: "clamp (Math_round (js_add 100 (js_mul (js_sub (1 / 2) (1 / 2)) 20))) 0 100 = 100"
    by code_simp
  have b: "block_index 100 = 8" by code_simp
  have i: "js_index blocks 8 = None" by (simp add: js_index_def blocks_def)
  have "makeSparkline (\<lambda>_. 1 / 2) 100 = []"
    by (simp add: makeSparkline_def v b i)
  with b i show ?thesis by simp
qed

section \<open>Spawn gate\<close>

lemma spawnRandom_total: "\<exists>st'. spawnRandom cfg win h d st = Some st'"
proof -
  obtain p where "generate (s_profile d) = Some p" using generate_total by blast
  then show ?thesis by (simp add: spawnRandom_def Let_def split: prod.splits)
qed

lemma spawnRandom_spawnAccumulator:
  assumes "spawnRandom cfg win h d st = Some st'"
  shows "spawnAccumulator st' = spawnAccumulator st"
  using assms
  by (auto simp: spawnRandom_def getNode_def Let_def split: option.splits if_splits)

lemma spawnRandom_active:
  assumes "spawnRandom cfg win h d st = Some st'"
  shows "active st' = (if fst (getNode st) \<in> set (active st) then active st
                       else active st @ [fst (getNode st)])"
  using assms
  by (auto simp: spawnRandom_def getNode_def Let_def split: option.splits if_splits)

text \<open>The threshold \<^verbatim>\<open>rand(0.6, 1.4)\<close> lies between the two literals.\<close>

lemma threshold_range:
  assumes "is_random u"
  shows "dbl (6 / 10) \<le> rand u (dbl (6 / 10)) (dbl (14 / 10))"
    and "rand u (dbl (6 / 10)) (dbl (14 / 10)) \<le> dbl (14 / 10)"
proof -
  define lo where "lo = dbl (6 / 10)"
  define hi where "hi = dbl (14 / 10)"
  define w where "w = js_sub hi lo"
  define z where "z = js_mul u w"
  have u0: "0 \<le> u" and u1: "u < 1" using assms by (simp_all add: is_random_def)
  have "lo \<le> hi" unfolding lo_def hi_def by (rule dbl_mono) simp
  then have w0: "0 \<le> w" unfolding w_def js_sub_def by (intro dbl_nonneg) simp
  have dw: "dbl w = w" by (simp add: w_def js_sub_def dbl_idem)
  have dlo: "dbl lo = lo" by (simp add: lo_def dbl_idem)
  have z0: "0 \<le> z" unfolding z_def js_mul_def using u0 w0 by (intro dbl_nonneg) simp
  have "u * w \<le> w" using mult_right_mono[of u 1 w] u1 w0 by simp
  then have "dbl (u * w) \<le> dbl w" by (rule dbl_mono)
  then have zw: "z \<le> w" by (simp add: z_def js_mul_def dw)
  have r: "rand u lo hi = dbl (z + lo)"
    by (simp add: rand_def z_def w_def js_add_def)
  have "dbl lo \<le> dbl (z + lo)" using z0 by (intro dbl_mono) simp
  then have 1: "lo \<le> rand u lo hi" by (simp only: r dlo)
  have top: "js_add w lo = hi" unfolding w_def lo_def hi_def by code_simp
  have "dbl (z + lo) \<le> dbl (w + lo)" using zw by (intro dbl_mono) simp
  then have 2: "rand u lo hi \<le> hi" using top by (simp only: r js_add_def)
  from 1 show "dbl (6 / 10) \<le> rand u (dbl (6 / 10)) (dbl (14 / 10))" unfolding lo_def hi_def .
  from 2 show "rand u (dbl (6 / 10)) (dbl (14 / 10)) \<le> dbl (14 / 10)" unfolding lo_def hi_def .
qed

text \<open>The upper literal is met when the draw is the largest double below 1.\<close>

lemma threshold_reaches_top:
  "is_random (1 - 1 / 2 ^ 53) \<and> rand (1 - 1 / 2 ^ 53) (dbl (6 / 10)) (dbl (14 / 10)) = dbl (14 / 10)"
  by code_simp

text \<open>
  C3. In \<^verbatim>\<open>tick\<close>, when the accumulator (after adding \<open>dt * rate\<close>) has reached the
  threshold \<^verbatim>\<open>rand(0.6, 1.4)\<close>: the accumulator is 0 afterwards whether or not a panel
  was spawned; \<^verbatim>\<open>spawnRandom\<close> runs exactly when the number of live panels is strictly
  below \<^verbatim>\<open>CONFIG.maxCapsules\<close>, on the state with that count; otherwise nothing but the
  reset happens. So the active set grows only from a count below the maximum.
\<close>

theorem tick_spawns_only_below_cap:
  assumes "rand (t_threshold d) (dbl (6 / 10)) (dbl (14 / 10))
             \<le> js_add (spawnAccumulator st) (js_mul dt (js_mul 1 (capsuleRateScale cfg)))"
  shows "\<exists>st'. tick cfg win h d dt st = Some st' \<and> spawnAccumulator st' = 0
     \<and> (if of_nat (length (active st)) < maxCapsules cfg
         then spawnRandom cfg win h (t_spawn d) (st\<lparr>spawnAccumulator := 0\<rparr>) = Some st'
         else st' = st\<lparr>spawnAccumulator := 0\<rparr>)
     \<and> (of_nat (length (active st)) < maxCapsules cfg \<or> active st' = active st)"
proof (cases "of_nat (length (active st)) < maxCapsules cfg")
  case True
  obtain st' where s: "spawnRandom cfg win h (t_spawn d) (st\<lparr>spawnAccumulator := 0\<rparr>) = Some st'"
    using spawnRandom_total by blast
  have "tick cfg win h d dt st = Some st'" using assms True s by (simp add: tick_def Let_def)
  moreover have "spawnAccumulator st' = 0" using spawnRandom_spawnAccumulator[OF s] by simp
  ultimately show ?thesis using True s by simp
next
  case False
  have "tick cfg win h d dt st = Some (st\<lparr>spawnAccumulator := 0\<rparr>)"
    using assms False by (simp add: tick_def Let_def)
  then show ?thesis using False by simp
qed

theorem tick_spawns_only_below_cap_witness:
  "rand (t_threshold demo_tick_draws) (dbl (6 / 10)) (dbl (14 / 10))
     \<le> js_add (spawnAccumulator (one_panel\<lparr>spawnAccumulator := 2\<rparr>))
          (js_mul (1 / 32) (js_mul 1 (capsuleRateScale CONFIG)))
   \<and> (\<exists>st'. tick CONFIG demo_window demo_host demo_tick_draws (1 / 32)
              (one_panel\<lparr>spawnAccumulator := 2\<rparr>) = Some st'
        \<and> spawnAccumulator st' = 0
        \<and> (if of_nat (length (active (one_panel\<lparr>spawnAccumulator := 2\<rparr>))) < maxCapsules CONFIG
            then spawnRandom CONFIG demo_window demo_host (t_spawn demo_tick_draws)
                   (one_panel\<lparr>spawnAccumulator := 2, spawnAccumulator := 0\<rparr>) = Some st'
            else st' = one_panel\<lparr>spawnAccumulator := 2, spawnAccumulator := 0\<rparr>)
        \<and> (of_nat (length (active (one_panel\<lparr>spawnAccumulator := 2\<rparr>))) < maxCapsules CONFIG
             \<or> active st' = active (one_panel\<lparr>spawnAccumulator := 2\<rparr>)))"
proof -
  have t: "rand (1 / 2) (dbl (6 / 10)) (dbl (14 / 10)) = 1" by code_simp
  have a: "js_add 2 (js_mul (1 / 32) (js_mul 1 1)) = 65 / 32" by code_simp
  have c: "rand (t_threshold demo_tick_draws) (dbl (6 / 10)) (dbl (14 / 10))
     \<le> js_add (spawnAccumulator (one_panel\<lparr>spawnAccumulator := 2\<rparr>))
          (js_mul (1 / 32) (js_mul 1 (capsuleRateScale CONFIG)))"
  proof -
    have 1: "t_threshold demo_tick_draws = 1 / 2" by (simp add: demo_tick_draws_def)
    have 2: "spawnAccumulator (one_panel\<lparr>spawnAccumulator := 2\<rparr>) = 2" by simp
    have 3: "capsuleRateScale CONFIG = 1" by (simp add: CONFIG_def)
    show ?thesis unfolding 1 2 3 t a by simp
  qed
  from tick_spawns_only_below_cap[OF c, of demo_window demo_host] c show ?thesis by simp
qed

text \<open>With an integral maximum, as the 12 of \<^verbatim>\<open>CONFIG\<close>, a tick never takes the number of live
  panels above the maximum.\<close>

lemma tick_keeps_cap:
  assumes t: "tick cfg win h d dt st = Some st'"
    and m: "maxCapsules cfg = of_int m"
    and c: "of_nat (length (active st)) \<le> maxCapsules cfg"
  shows "of_nat (length (active st')) \<le> maxCapsules cfg"
proof (cases "rand (t_threshold d) (dbl (6 / 10)) (dbl (14 / 10))
             \<le> js_add (spawnAccumulator st) (js_mul dt (js_mul 1 (capsuleRateScale cfg)))
           \<and> of_nat (length (active st)) < maxCapsules cfg")
  case False
  then have "active st' = active st" using t by (auto simp: tick_def Let_def split: if_splits)
  then show ?thesis using c by simp
next
  case True
  then have s: "spawnRandom cfg win h (t_spawn d) (st\<lparr>spawnAccumulator := 0\<rparr>) = Some st'"
    using t by (simp add: tick_def Let_def)
  have "length (active st') \<le> length (active st) + 1"
    using spawnRandom_active[OF s] by (simp split: if_splits)
  moreover have "(of_int (int (length (active st))) :: rat) < of_int m" using True m by simp
  then have "int (length (active st)) < m" by (simp only: of_int_less_iff)
  ultimately have "int (length (active st')) \<le> m" by linarith
  then have "(of_int (int (length (active st'))) :: rat) \<le> of_int m" by (simp only: of_int_le_iff)
  then show ?thesis by (simp add: m)
qed

section \<open>Dissolve\<close>

lemma ilog2_unique:
  assumes "2 powi e \<le> q" and "q < 2 powi (e + 1)"
  shows "ilog2 q = e"
proof -
  have pos: "0 < q" using powi2_pos[of e] assms(1) by (rule less_le_trans)
  note b = ilog2_bounds[OF pos]
  have "(2::rat) powi e < 2 powi (ilog2 q + 1)" using assms(1) b(2) by simp
  then have 1: "e < ilog2 q + 1" by (simp only: powi2_less_iff)
  have "(2::rat) powi ilog2 q < 2 powi (e + 1)" using assms(2) b(1) by simp
  then have 2: "ilog2 q < e + 1" by (simp only: powi2_less_iff)
  from 1 2 show ?thesis by simp
qed

text \<open>The largest double below 1 is \<open>1 - 2\<^sup>-\<^sup>5\<^sup>3\<close>.\<close>

lemma dbl_below_one:
  assumes "dbl z < 1"
  shows "dbl z \<le> 1 - 1 / 2 ^ 53"
proof -
  have e: "dbl (1 - 1 / 2 ^ 53) = 1 - 1 / 2 ^ 53"
  proof -
    have "dbl (of_int (2 ^ 53 - 1) * 2 powi (- 53)) = of_int (2 ^ 53 - 1) * 2 powi (- 53)"
      by (rule dbl_exact_pos) simp_all
    moreover have "of_int (2 ^ 53 - 1) * 2 powi (- 53) = (1 - 1 / 2 ^ 53 :: rat)"
      by (simp add: power_int_minus field_simps)
    ultimately show ?thesis by simp
  qed
  show ?thesis
  proof (cases "z \<le> 1 - 1 / 2 ^ 53")
    case True
    then have "dbl z \<le> dbl (1 - 1 / 2 ^ 53)" by (rule dbl_mono)
    then show ?thesis by (simp only: e)
  next
    case False
    then have lo: "1 - 1 / 2 ^ 53 < z" by simp
    have hi: "z < 1"
    proof (rule ccontr)
      assume "\<not> z < 1"
      then have "dbl 1 \<le> dbl z" by (intro dbl_mono) simp
      moreover have "dbl 1 = 1" using dbl_of_int[of 1] by simp
      ultimately show False using assms by simp
    qed
    have "ilog2 z = - 1" using lo hi by (intro ilog2_unique) (simp_all add: power_int_minus)
    then have k: "ulp_exp z = - 53" using lo by (simp add: ulp_exp_def)
    have z0: "z \<noteq> 0" using lo by auto
    define s where "s = z / 2 powi (- 53)"
    have s: "s = z * 2 ^ 53" by (simp add: s_def power_int_minus field_simps)
    have d: "dbl z = of_int (rne s) / 2 ^ 53"
      using z0 by (simp add: dbl_alt k s_def power_int_minus field_simps)
    have "s < 2 ^ 53" using hi by (simp add: s)
    then have "\<lfloor>s\<rfloor> < 2 ^ 53" by (simp add: floor_less_iff)
    moreover have "rne s \<noteq> 2 ^ 53" using assms by (auto simp: d)
    ultimately have "rne s \<le> 2 ^ 53 - 1" using rne_bounds(2)[of s] by linarith
    then have "(of_int (rne s) :: rat) \<le> of_int (2 ^ 53 - 1)" by (simp only: of_int_le_iff)
    then have "(of_int (rne s) :: rat) / 2 ^ 53 \<le> of_int (2 ^ 53 - 1) / 2 ^ 53"
      by (rule divide_right_mono) simp
    then show ?thesis by (simp add: d field_simps)
  qed
qed

lemma fade_positive:
  assumes "dbl z < 1"
  shows "0 < js_sub 1 (dbl z)"
proof -
  have "dbl (of_int 1 * 2 powi (- 53)) = of_int 1 * 2 powi (- 53)"
    by (rule dbl_exact_pos) simp_all
  then have e: "dbl (1 / 2 ^ 53) = 1 / 2 ^ 53" by (simp add: power_int_minus field_simps)
  have "1 / 2 ^ 53 \<le> 1 - dbl z" using dbl_below_one[OF assms] by simp
  then have "dbl (1 / 2 ^ 53) \<le> dbl (1 - dbl z)" by (rule dbl_mono)
  then have "1 / 2 ^ 53 \<le> js_sub 1 (dbl z)" by (simp only: e js_sub_def)
  with zero_less_divide_1_iff[THEN iffD2, of "2 ^ 53 :: rat"] show ?thesis by simp
qed

lemma progress_is_double: "dbl (progress start f) = progress start f"
  by (simp add: progress_def js_div_def dbl_idem)

lemma jitter_fading:
  assumes "progress start f < 1"
  shows "snd (jitter start n f st)"
    and "node_opacity n (fst (jitter start n f st)) = Some (js_sub 1 (progress start f))"
    and "0 < js_sub 1 (progress start f)"
    and "active (fst (jitter start n f st)) = active st"
    and "pool (fst (jitter start n f st)) = pool st"
    and "container (fst (jitter start n f st)) = container st"
proof -
  have nt: "\<not> 1 \<le> js_div (js_sub (now f) start) 500" using assms by (simp add: progress_def)
  show "snd (jitter start n f st)" using nt by (simp add: jitter_def Let_def)
  show "node_opacity n (fst (jitter start n f st)) = Some (js_sub 1 (progress start f))"
    using nt by (simp add: jitter_def Let_def node_opacity_def progress_def)
  have "dbl (progress start f) < 1" using assms by (simp only: progress_is_double)
  from fade_positive[OF this] show "0 < js_sub 1 (progress start f)"
    by (simp only: progress_is_double)
  show "active (fst (jitter start n f st)) = active st" using nt by (simp add: jitter_def Let_def)
  show "pool (fst (jitter start n f st)) = pool st" using nt by (simp add: jitter_def Let_def)
  show "container (fst (jitter start n f st)) = container st"
    using nt by (simp add: jitter_def Let_def)
qed

lemma jitter_completes:
  assumes "1 \<le> progress start f"
  shows "jitter start n f st
           = (st\<lparr>active := removeAll n (active st), container := removeAll n (container st),
                 pool := pool st @ [n]\<rparr>, False)"
  using assms by (simp add: jitter_def Let_def progress_def releaseNode_def)

lemma getNode_pooled:
  "fst (getNode (st\<lparr>pool := ps @ [n]\<rparr>)) = n"
  "next_node (snd (getNode (st\<lparr>pool := ps @ [n]\<rparr>))) = next_node st"
  by (simp_all add: getNode_def)

text \<open>
  While every frame comes before the 500 ms, the dissolve keeps asking for frames: the
  panel stays active, nothing is pooled, and the opacity of the node is the \<open>1 - t\<close>
  of the last frame (its own before the dissolve when there was no frame yet).
\<close>

lemma dissolve_fading:
  assumes "\<forall>f \<in> set gs. progress start f < 1"
  shows "snd (dissolve start n gs st)
     \<and> active (fst (dissolve start n gs st)) = active st
     \<and> pool (fst (dissolve start n gs st)) = pool st
     \<and> container (fst (dissolve start n gs st)) = container st
     \<and> next_node (fst (dissolve start n gs st)) = next_node st
     \<and> node_opacity n (fst (dissolve start n gs st))
         = (if gs = [] then node_opacity n st else Some (js_sub 1 (progress start (last gs))))"
  using assms
proof (induction gs arbitrary: st)
  case Nil
  then show ?case by simp
next
  case (Cons f gs)
  have lt: "progress start f < 1" using Cons.prems by simp
  define s where "s = fst (jitter start n f st)"
  have j: "jitter start n f st = (s, True)"
    using jitter_fading(1)[OF lt, of n st] by (simp add: s_def prod_eq_iff)
  have d: "dissolve start n (f # gs) st = dissolve start n gs s" by (simp add: j)
  have rest: "\<forall>g \<in> set gs. progress start g < 1" using Cons.prems by simp
  note ih = Cons.IH[OF rest, of s]
  have a: "active s = active st" unfolding s_def by (rule jitter_fading(4)[OF lt])
  have p: "pool s = pool st" unfolding s_def by (rule jitter_fading(5)[OF lt])
  have c: "container s = container st" unfolding s_def by (rule jitter_fading(6)[OF lt])
  have x: "next_node s = next_node st"
    using lt by (simp add: s_def jitter_def Let_def progress_def)
  have o: "node_opacity n s = Some (js_sub 1 (progress start f))"
    unfolding s_def by (rule jitter_fading(2)[OF lt])
  show ?case unfolding d using ih a p c x o by (cases "gs = []") simp_all
qed

lemma dissolve_append:
  assumes "\<forall>f \<in> set gs. progress start f < 1"
  shows "dissolve start n (gs @ hs) st = dissolve start n hs (fst (dissolve start n gs st))"
  using assms
proof (induction gs arbitrary: st)
  case Nil
  then show ?case by simp
next
  case (Cons f gs)
  have lt: "progress start f < 1" using Cons.prems by simp
  define s where "s = fst (jitter start n f st)"
  have j: "jitter start n f st = (s, True)"
    using jitter_fading(1)[OF lt, of n st] by (simp add: s_def prod_eq_iff)
  have rest: "\<forall>g \<in> set gs. progress start g < 1" using Cons.prems by simp
  show ?case using Cons.IH[OF rest, of s] by (simp add: j)
qed

lemma fading_split:
  assumes "\<exists>f \<in> set fs. 1 \<le> progress start f"
  shows "\<exists>f hs. fs = fading start fs @ f # hs \<and> 1 \<le> progress start f"
proof -
  let ?P = "\<lambda>f. progress start f < 1"
  have "\<not> (\<forall>f \<in> set fs. ?P f)" using assms by (auto simp: not_less)
  then have ne: "dropWhile ?P fs \<noteq> []" by (simp only: dropWhile_eq_Nil_conv not_False_eq_True)
  then obtain f hs where d: "dropWhile ?P fs = f # hs" by (cases "dropWhile ?P fs") auto
  have "\<not> ?P (hd (dropWhile ?P fs))" using ne by (rule hd_dropWhile)
  then have "1 \<le> progress start f" by (simp add: d not_less)
  moreover have "fs = takeWhile ?P fs @ dropWhile ?P fs" by simp
  ultimately show ?thesis unfolding fading_def d by blast
qed

lemma fading_all: "\<forall>f \<in> set (fading start fs). progress start f < 1"
  by (auto simp: fading_def dest: set_takeWhileD)

text \<open>
  C8, as the code has it. On every animation frame before 500 ms have elapsed the
  opacity of the node is set to \<open>1 - t\<close>, where \<open>t\<close> is the elapsed part of the 500 ms,
  and that value is strictly positive: the dissolve never writes the opacity 0.
  This holds of a single frame on any state, and of the run: after the first \<open>k + 1\<close>
  frames, all before the 500 ms, the dissolve is still waiting for a frame, the panel
  is still active, nothing was pooled, and the opacity is the \<open>1 - t\<close> of frame \<open>k\<close>.
  When a frame arrives at or after 500 ms the dissolve ends: the panel is removed
  from the active set, its node leaves the container and is put on the pool with the
  opacity it last had, which is the \<open>1 - t\<close> of the last frame before the 500 ms, or
  the opacity from before the dissolve when there was no such frame; and the next
  \<^verbatim>\<open>getNode\<close> returns that node without creating a new one.
\<close>

theorem dissolve_fades_then_pools_node:
  assumes "\<exists>f \<in> set fs. 1 \<le> progress start f"
  shows "(\<forall>g s. progress start g < 1 \<longrightarrow>
            snd (jitter start n g s)
            \<and> node_opacity n (fst (jitter start n g s)) = Some (js_sub 1 (progress start g))
            \<and> 0 < js_sub 1 (progress start g))
     \<and> (\<forall>k < length (fading start fs).
            snd (dissolve start n (take (Suc k) fs) st)
            \<and> active (fst (dissolve start n (take (Suc k) fs) st)) = active st
            \<and> pool (fst (dissolve start n (take (Suc k) fs) st)) = pool st
            \<and> node_opacity n (fst (dissolve start n (take (Suc k) fs) st))
                = Some (js_sub 1 (progress start (fs ! k)))
            \<and> 0 < js_sub 1 (progress start (fs ! k)))
     \<and> (\<exists>st'. dissolve start n fs st = (st', False)
          \<and> n \<notin> set (active st') \<and> n \<notin> set (container st') \<and> pool st' = pool st @ [n]
          \<and> fst (getNode st') = n \<and> next_node (snd (getNode st')) = next_node st'
          \<and> next_node st' = next_node st
          \<and> node_opacity n st'
              = (if fading start fs = [] then node_opacity n st
                 else Some (js_sub 1 (progress start (last (fading start fs))))))"
proof -
  let ?gs = "fading start fs"
  have step: "\<forall>g s. progress start g < 1 \<longrightarrow>
            snd (jitter start n g s)
            \<and> node_opacity n (fst (jitter start n g s)) = Some (js_sub 1 (progress start g))
            \<and> 0 < js_sub 1 (progress start g)"
    using jitter_fading(1,2,3) by blast
  from fading_split[OF assms] obtain f hs where
    fs: "fs = ?gs @ f # hs" and f: "1 \<le> progress start f" by blast
  have run: "snd (dissolve start n (take (Suc k) fs) st)
            \<and> active (fst (dissolve start n (take (Suc k) fs) st)) = active st
            \<and> pool (fst (dissolve start n (take (Suc k) fs) st)) = pool st
            \<and> node_opacity n (fst (dissolve start n (take (Suc k) fs) st))
                = Some (js_sub 1 (progress start (fs ! k)))
            \<and> 0 < js_sub 1 (progress start (fs ! k))"
    if k: "k < length ?gs" for k
  proof -
    have "take (Suc k) fs = take (Suc k) (?gs @ f # hs)" using fs by simp
    also have "\<dots> = take (Suc k) ?gs" using k by simp
    finally have t: "take (Suc k) fs = take (Suc k) ?gs" .
    have "fs ! k = (?gs @ f # hs) ! k" using fs by simp
    also have "\<dots> = ?gs ! k" using k by (simp add: nth_append)
    finally have e: "fs ! k = ?gs ! k" .
    have tk: "take (Suc k) ?gs = take k ?gs @ [?gs ! k]" using k by (rule take_Suc_conv_app_nth)
    have ne: "take (Suc k) ?gs \<noteq> []" and l: "last (take (Suc k) ?gs) = ?gs ! k"
      by (simp_all add: tk)
    have all: "\<forall>g \<in> set (take (Suc k) ?gs). progress start g < 1"
      using fading_all[of start fs] by (auto dest: in_set_takeD)
    have "?gs ! k \<in> set ?gs" using k by simp
    then have lt: "progress start (?gs ! k) < 1" using fading_all[of start fs] by blast
    have pos: "0 < js_sub 1 (progress start (?gs ! k))" by (rule jitter_fading(3)[OF lt])
    have g: "fading start fs \<noteq> []" using k by auto
    from dissolve_fading[OF all, of n st] pos show ?thesis
      unfolding t e by (simp add: g l)
  qed
  define s where "s = fst (dissolve start n ?gs st)"
  note fd = dissolve_fading[OF fading_all[of start fs], of n st, folded s_def]
  have "dissolve start n fs st = dissolve start n (?gs @ f # hs) st" using fs by simp
  also have "\<dots> = dissolve start n (f # hs) s"
    unfolding s_def by (rule dissolve_append[OF fading_all])
  also have "\<dots> = (s\<lparr>active := removeAll n (active s), container := removeAll n (container s),
                 pool := pool s @ [n]\<rparr>, False)"
    by (simp add: jitter_completes[OF f])
  finally have d: "dissolve start n fs st
      = (s\<lparr>active := removeAll n (active s), container := removeAll n (container s),
             pool := pool s @ [n]\<rparr>, False)" .
  let ?st' = "s\<lparr>active := removeAll n (active s), container := removeAll n (container s),
             pool := pool s @ [n]\<rparr>"
  have e1: "n \<notin> set (active ?st')" "n \<notin> set (container ?st')" by simp_all
  have e2: "pool ?st' = pool st @ [n]" using fd by simp
  have e3: "fst (getNode ?st') = n" "next_node (snd (getNode ?st')) = next_node ?st'"
    by (simp_all add: getNode_def)
  have e4: "next_node ?st' = next_node st" using fd by simp
  have e5: "node_opacity n ?st'
              = (if ?gs = [] then node_opacity n st
                 else Some (js_sub 1 (progress start (last ?gs))))"
    using fd by (simp add: node_opacity_def)
  have fin: "\<exists>st'. dissolve start n fs st = (st', False)
          \<and> n \<notin> set (active st') \<and> n \<notin> set (container st') \<and> pool st' = pool st @ [n]
          \<and> fst (getNode st') = n \<and> next_node (snd (getNode st')) = next_node st'
          \<and> next_node st' = next_node st
          \<and> node_opacity n st'
              = (if ?gs = [] then node_opacity n st
                 else Some (js_sub 1 (progress start (last ?gs))))"
    using d e1 e2 e3 e4 e5 by blast
  from step run fin show ?thesis by blast
qed

lemma demo_progress:
  "progress 0 \<lparr> now = 250, jx = 3 / 4, jy = 1 / 4 \<rparr> = 1 / 2"
  "progress 0 \<lparr> now = 500, jx = 1 / 2, jy = 1 / 2 \<rparr> = 1"
  by (simp add: progress_def, code_simp)+

lemma demo_jitter_values:
  "js_sub 1 (1 / 2) = 1 / 2"
  "js_mul (js_sub (3 / 4) (1 / 2)) 6 = 3 / 2"
  "js_mul (js_sub (1 / 4) (1 / 2)) 6 = - (3 / 2)"
  by code_simp+

lemma demo_dissolve:
  "dissolve 0 0 demo_frames one_panel
     = (one_panel
          \<lparr> nodes := (nodes one_panel)(0 := (nodes one_panel 0)
              \<lparr> style_opacity := Some (1 / 2),
                style_transform := Some (Translate3d (3 / 2) (- (3 / 2))) \<rparr>),
            active := [], container := [], pool := [0] \<rparr>, False)"
proof -
  have p: "js_div (js_sub 250 0) 500 = 1 / 2" "js_div (js_sub 500 0) 500 = 1"
    using demo_progress by (simp_all add: progress_def)
  show ?thesis
    by (simp add: demo_frames_def jitter_def Let_def p demo_jitter_values releaseNode_def
        one_panel_def)
qed

lemma demo_fading: "fading 0 demo_frames = [\<lparr> now = 250, jx = 3 / 4, jy = 1 / 4 \<rparr>]"
  by (simp add: fading_def demo_frames_def demo_progress)

theorem dissolve_fades_then_pools_node_witness:
  "(\<exists>f \<in> set demo_frames. 1 \<le> progress 0 f)
   \<and> progress 0 \<lparr> now = 250, jx = 3 / 4, jy = 1 / 4 \<rparr> < 1
   \<and> snd (jitter 0 0 \<lparr> now = 250, jx = 3 / 4, jy = 1 / 4 \<rparr> one_panel)
   \<and> node_opacity 0 (fst (jitter 0 0 \<lparr> now = 250, jx = 3 / 4, jy = 1 / 4 \<rparr> one_panel))
        = Some (js_sub 1 (progress 0 \<lparr> now = 250, jx = 3 / 4, jy = 1 / 4 \<rparr>))
   \<and> 0 < js_sub 1 (progress 0 \<lparr> now = 250, jx = 3 / 4, jy = 1 / 4 \<rparr>)
   \<and> 0 < length (fading 0 demo_frames)
   \<and> snd (dissolve 0 0 (take (Suc 0) demo_frames) one_panel)
   \<and> active (fst (dissolve 0 0 (take (Suc 0) demo_frames) one_panel)) = active one_panel
   \<and> pool (fst (dissolve 0 0 (take (Suc 0) demo_frames) one_panel)) = pool one_panel
   \<and> node_opacity 0 (fst (dissolve 0 0 (take (Suc 0) demo_frames) one_panel))
        = Some (js_sub 1 (progress 0 (demo_frames ! 0)))
   \<and> 0 < js_sub 1 (progress 0 (demo_frames ! 0))
   \<and> (\<exists>st'. dissolve 0 0 demo_frames one_panel = (st', False)
          \<and> 0 \<notin> set (active st') \<and> 0 \<notin> set (container st') \<and> pool st' = pool one_panel @ [0]
          \<and> fst (getNode st') = 0 \<and> next_node (snd (getNode st')) = next_node st'
          \<and> next_node st' = next_node one_panel
          \<and> node_opacity 0 st'
              = (if fading 0 demo_frames = [] then node_opacity 0 one_panel
                 else Some (js_sub 1 (progress 0 (last (fading 0 demo_frames))))))"
proof -
  have a: "\<exists>f \<in> set demo_frames. 1 \<le> progress 0 f"
    by (simp add: demo_frames_def demo_progress)
  have b: "progress 0 \<lparr> now = 250, jx = 3 / 4, jy = 1 / 4 \<rparr> < 1"
    by (simp add: demo_progress)
  have c: "0 < length (fading 0 demo_frames)" by (simp add: demo_fading)
  note t = dissolve_fades_then_pools_node[OF a, of 0 one_panel]
  from t have s: "\<forall>g s. progress 0 g < 1 \<longrightarrow>
            snd (jitter 0 0 g s)
            \<and> node_opacity 0 (fst (jitter 0 0 g s)) = Some (js_sub 1 (progress 0 g))
            \<and> 0 < js_sub 1 (progress 0 g)" by blast
  from t have r: "\<forall>k < length (fading 0 demo_frames).
            snd (dissolve 0 0 (take (Suc k) demo_frames) one_panel)
            \<and> active (fst (dissolve 0 0 (take (Suc k) demo_frames) one_panel)) = active one_panel
            \<and> pool (fst (dissolve 0 0 (take (Suc k) demo_frames) one_panel)) = pool one_panel
            \<and> node_opacity 0 (fst (dissolve 0 0 (take (Suc k) demo_frames) one_panel))
                = Some (js_sub 1 (progress 0 (demo_frames ! k)))
            \<and> 0 < js_sub 1 (progress 0 (demo_frames ! k))" by blast
  from s[rule_format, OF b, of one_panel] r[rule_format, OF c] t a b c show ?thesis by blast
qed

text \<open>
  C8, as stated, fails: the claim has the opacity reach 0 within the 500 ms. A panel
  with opacity \<^verbatim>\<open>'1'\<close> starts to dissolve at clock 0 and receives frames at 250 ms and at
  500 ms. The first frame sets the opacity to 0.5; the second ends the dissolve,
  removes the panel and pools the node without touching the opacity, which stays 0.5.
\<close>

theorem dissolve_ends_with_opacity_above_zero:
  "snd (dissolve 0 0 demo_frames one_panel) = False
   \<and> active (fst (dissolve 0 0 demo_frames one_panel)) = []
   \<and> pool (fst (dissolve 0 0 demo_frames one_panel)) = [0]
   \<and> node_opacity 0 one_panel = Some 1
   \<and> node_opacity 0 (fst (dissolve 0 0 demo_frames one_panel)) = Some (1 / 2)
   \<and> node_opacity 0 (fst (dissolve 0 0 demo_frames one_panel)) \<noteq> Some 0"
proof -
  have a: "node_opacity 0 one_panel = Some 1" by (simp add: one_panel_def node_opacity_def)
  have b: "node_opacity 0 (fst (dissolve 0 0 demo_frames one_panel)) = Some (1 / 2)"
    by (simp add: demo_dissolve node_opacity_def)
  from a b show ?thesis by (simp add: demo_dissolve)
qed

section \<open>Reuse of pooled nodes\<close>

lemma spawnRandom_reuse:
  assumes "spawnRandom cfg win h d st = Some st'" and "pool st \<noteq> []"
  shows "node_transform (last (pool st)) st' = node_transform (last (pool st)) st"
    and "node_opacity (last (pool st)) st' = Some 0"
    and "last (pool st) \<in> set (active st')"
    and "pool st' = butlast (pool st)"
    and "next_node st' = next_node st"
  using assms
  by (auto simp: spawnRandom_def getNode_def Let_def node_transform_def node_opacity_def
      split: option.splits)

text \<open>
  C7. The claim is that a node taken from the pool has every style property of its
  previous life reset before it is shown again, the transform written by the dissolve
  included. \<^verbatim>\<open>spawnRandom\<close> resets the class, the opacity, the children and the position
  but never assigns the transform. The panel of node 0 dissolves (frames at 250 ms and
  500 ms, jitter draws 0.75 and 0.25), the node goes to the pool with the transform
  \<^verbatim>\<open>translate3d(1.5px, -1.5px, 0)\<close>; the next spawn takes node 0 from the pool, creates no
  node, makes it active again, and the transform is still there.
\<close>

theorem reused_node_keeps_transform:
  "pool (fst (dissolve 0 0 demo_frames one_panel)) = [0]
   \<and> node_transform 0 (fst (dissolve 0 0 demo_frames one_panel))
       = Some (Translate3d (3 / 2) (- (3 / 2)))
   \<and> (\<exists>st'. spawnRandom CONFIG demo_window demo_host demo_spawn_draws
               (fst (dissolve 0 0 demo_frames one_panel)) = Some st'
          \<and> active st' = [0] \<and> pool st' = [] \<and> next_node st' = 1
          \<and> node_opacity 0 st' = Some 0
          \<and> node_transform 0 st' = Some (Translate3d (3 / 2) (- (3 / 2))))"
proof -
  let ?st = "fst (dissolve 0 0 demo_frames one_panel)"
  have p: "pool ?st = [0]" by (simp add: demo_dissolve)
  have t: "node_transform 0 ?st = Some (Translate3d (3 / 2) (- (3 / 2)))"
    by (simp add: demo_dissolve node_transform_def)
  have a: "active ?st = []" by (simp add: demo_dissolve)
  have "next_node ?st = next_node one_panel" by (simp add: demo_dissolve)
  then have n: "next_node ?st = 1" by (simp add: one_panel_def)
  obtain st' where s: "spawnRandom CONFIG demo_window demo_host demo_spawn_draws ?st = Some st'"
    using spawnRandom_total by blast
  have ne: "pool ?st \<noteq> []" and l: "last (pool ?st) = 0" using p by simp_all
  note r = spawnRandom_reuse[OF s ne, unfolded l]
  have "fst (getNode ?st) = 0" using p by (simp add: getNode_def)
  then have "active st' = [0]" using spawnRandom_active[OF s] a by simp
  moreover have "pool st' = []" using r(4) p by simp
  moreover have "next_node st' = 1" using r(5) n by simp
  moreover have "node_transform 0 st' = Some (Translate3d (3 / 2) (- (3 / 2)))" using r(1) t by simp
  ultimately show ?thesis using p t s r(2) by simp
qed

end
